theory Spec2Isabelle
  imports Complex_Main "HOL-Library.Sublist" "HOL-Library.Code_Target_Nat"
begin

section \<open>Python values read from the JSON configuration\<close>

text \<open>
  \<^verbatim>\<open>tasks.json\<close> is read with \<^verbatim>\<open>json.load\<close>, so a task is a Python dict whose
  values may be any JSON value. A float is finite (a rational here, which covers every
  finite double), infinite or NaN; \<^verbatim>\<open>json.load\<close> accepts all of them. A dict is an
  association list in insertion order.
\<close>

datatype pyfloat = FFinite rat | FInf | FNegInf | FNaN

datatype json =
    JNull
  | JBool bool
  | JInt int
  | JFloat pyfloat
  | JStr string
  | JList "json list"
  | JObj "(string \<times> json) list"

type_synonym pydict = "(string \<times> json) list"

text \<open>The exceptions the modelled code can meet; \<open>Failure\<close> carries \<^verbatim>\<open>str(e)\<close> of an
  exception raised by the file system or the FTP library.\<close>

datatype pyexc = AttributeError | TypeError | ValueError | OverflowError | Failure string

text \<open>Truth value of a Python object, as \<^verbatim>\<open>not x\<close>, \<^verbatim>\<open>x or y\<close> and \<^verbatim>\<open>bool(x)\<close> compute it.\<close>

fun truthy :: "json \<Rightarrow> bool" where
  "truthy JNull = False"
| "truthy (JBool b) = b"
| "truthy (JInt n) = (n \<noteq> 0)"
| "truthy (JFloat f) = (f \<noteq> FFinite 0)"
| "truthy (JStr s) = (s \<noteq> [])"
| "truthy (JList xs) = (xs \<noteq> [])"
| "truthy (JObj kvs) = (kvs \<noteq> [])"

definition py_or :: "json \<Rightarrow> json \<Rightarrow> json" where
  "py_or a b = (if truthy a then a else b)"

text \<open>\<^verbatim>\<open>d.get(k, default)\<close>.\<close>

definition dict_get :: "pydict \<Rightarrow> string \<Rightarrow> json \<Rightarrow> json" where
  "dict_get d k dflt = (case map_of d k of None \<Rightarrow> dflt | Some v \<Rightarrow> v)"

text \<open>\<^verbatim>\<open>d[k] = v\<close>: an existing key keeps its position, a new key goes last.\<close>

fun dict_set :: "pydict \<Rightarrow> string \<Rightarrow> json \<Rightarrow> pydict" where
  "dict_set [] k v = [(k, v)]"
| "dict_set ((k', v') # d) k v = (if k' = k then (k, v) # d else (k', v') # dict_set d k v)"

subsection \<open>Strings\<close>

text \<open>The characters \<^verbatim>\<open>str.strip()\<close> removes, among the code points below 256.\<close>

definition is_space :: "char \<Rightarrow> bool" where
  "is_space c = ((of_char c :: nat) \<in> {9, 10, 11, 12, 13, 28, 29, 30, 31, 32, 133, 160})"

definition py_strip :: "string \<Rightarrow> string" where
  "py_strip s = rev (dropWhile is_space (rev (dropWhile is_space s)))"

definition slash :: char where
  "slash = CHR ''/''"

definition backslash :: char where
  "backslash = CHR 0x5C"

text \<open>\<^verbatim>\<open>s.lstrip("/")\<close>, \<^verbatim>\<open>s.rstrip("/")\<close>, \<^verbatim>\<open>s.strip("/")\<close>.\<close>

definition lstrip_slash :: "string \<Rightarrow> string" where
  "lstrip_slash s = dropWhile (\<lambda>c. c = slash) s"

definition rstrip_slash :: "string \<Rightarrow> string" where
  "rstrip_slash s = rev (dropWhile (\<lambda>c. c = slash) (rev s))"

definition strip_slash :: "string \<Rightarrow> string" where
  "strip_slash s = rstrip_slash (lstrip_slash s)"

text \<open>\<^verbatim>\<open>path.replace("\\", "/")\<close>.\<close>

definition replace_backslash :: "string \<Rightarrow> string" where
  "replace_backslash s = map (\<lambda>c. if c = backslash then slash else c) s"

text \<open>\<^verbatim>\<open>def norm_remote(path): return path.replace("\\", "/").lstrip("/")\<close>\<close>

definition norm_remote :: "string \<Rightarrow> string" where
  "norm_remote p = lstrip_slash (replace_backslash p)"

text \<open>\<^verbatim>\<open>x in s\<close> for two strings: \<open>x\<close> occurs in \<open>s\<close> as a contiguous run.\<close>

fun str_contains :: "string \<Rightarrow> string \<Rightarrow> bool" where
  "str_contains x [] = (x = [])"
| "str_contains x (c # s) = (prefix x (c # s) \<or> str_contains x s)"

subsection \<open>Records of the configuration\<close>

record profile =
  p_name :: string
  p_host :: string
  p_port :: int
  p_username :: string
  p_password :: string
  p_tls :: bool
  p_root :: string

record mapping =
  m_name :: string
  m_enabled :: bool
  m_local_relpath :: string
  m_remote_path :: string
  m_backup_before_overwrite :: bool

subsection \<open>Remote path of a mapping\<close>

text \<open>
  In \<^verbatim>\<open>_run_upload_for_task\<close>:
  \<^verbatim>\<open>root = norm_remote(p.root or "/")\<close> and, for each mapping,
  \<^verbatim>\<open>remote_full = "/" + (root.rstrip("/") + "/" + norm_remote(m.remote_path)).strip("/")\<close>.
\<close>

definition task_root :: "string \<Rightarrow> string" where
  "task_root r = norm_remote (if r = [] then [slash] else r)"

definition remote_full :: "string \<Rightarrow> string \<Rightarrow> string" where
  "remote_full rt rp = slash # strip_slash (rstrip_slash rt @ [slash] @ norm_remote rp)"

definition effective_remote :: "string \<Rightarrow> string \<Rightarrow> string" where
  "effective_remote proot rp = remote_full (task_root proot) rp"

subsection \<open>Mapping resolution\<close>

text \<open>
  \<^verbatim>\<open>use_mappings = [m for m in self.mappings if (m.name in selected_names)]
       if mode == "selected" else [m for m in self.mappings if m.enabled]\<close>
\<close>

definition use_mappings :: "string \<Rightarrow> json list \<Rightarrow> mapping list \<Rightarrow> mapping list" where
  "use_mappings mode selected_names ms =
     (if mode = ''selected'' then [m \<leftarrow> ms. JStr (m_name m) \<in> set selected_names]
      else [m \<leftarrow> ms. m_enabled m])"


subsection \<open>Conversions and containers\<close>

text \<open>\<^verbatim>\<open>int(s)\<close> for a string: surrounding whitespace is dropped, one sign is allowed, the
  digits may be grouped by single underscores, and more than 4300 digits are refused
  (the interpreter's default limit); anything else raises \<^verbatim>\<open>ValueError\<close>.\<close>

definition is_digit :: "char \<Rightarrow> bool" where
  "is_digit c = (48 \<le> (of_char c :: nat) \<and> (of_char c :: nat) \<le> 57)"

definition digit_val :: "char \<Rightarrow> int" where
  "digit_val c = int (of_char c) - 48"

fun digit_groups :: "string \<Rightarrow> bool" where
  "digit_groups [] = False"
| "digit_groups [c] = is_digit c"
| "digit_groups (c # d # s) =
     (is_digit c \<and> (if d = CHR ''_'' then digit_groups s else digit_groups (d # s)))"

definition digits_value :: "string \<Rightarrow> int" where
  "digits_value s = foldl (\<lambda>acc c. 10 * acc + digit_val c) 0 (filter is_digit s)"

definition parse_int :: "string \<Rightarrow> int option" where
  "parse_int s =
     (let t = py_strip s;
          signed = (t \<noteq> [] \<and> (hd t = CHR ''-'' \<or> hd t = CHR ''+''));
          body = (if signed then tl t else t)
      in if digit_groups body \<and> length (filter is_digit body) \<le> 4300
         then Some (if signed \<and> hd t = CHR ''-'' then - digits_value body else digits_value body)
         else None)"

text \<open>\<^verbatim>\<open>int(x)\<close> of a float truncates towards zero.\<close>

definition py_trunc :: "rat \<Rightarrow> int" where
  "py_trunc r = (if r < 0 then - \<lfloor>- r\<rfloor> else \<lfloor>r\<rfloor>)"

fun py_int :: "json \<Rightarrow> pyexc + int" where
  "py_int (JInt n) = Inr n"
| "py_int (JBool b) = Inr (if b then 1 else 0)"
| "py_int (JFloat (FFinite r)) = Inr (py_trunc r)"
| "py_int (JFloat FNaN) = Inl ValueError"
| "py_int (JFloat FInf) = Inl OverflowError"
| "py_int (JFloat FNegInf) = Inl OverflowError"
| "py_int (JStr s) = (case parse_int s of None \<Rightarrow> Inl ValueError | Some n \<Rightarrow> Inr n)"
| "py_int JNull = Inl TypeError"
| "py_int (JList xs) = Inl TypeError"
| "py_int (JObj kvs) = Inl TypeError"

text \<open>\<^verbatim>\<open>x in c\<close> for a string \<open>x\<close>: an element of a list, a substring of a string, a key
  of a dict; any other container raises \<^verbatim>\<open>TypeError\<close>.\<close>

fun py_contains :: "string \<Rightarrow> json \<Rightarrow> pyexc + bool" where
  "py_contains x (JList xs) = Inr (JStr x \<in> set xs)"
| "py_contains x (JStr s) = Inr (str_contains x s)"
| "py_contains x (JObj kvs) = Inr (x \<in> set (map fst kvs))"
| "py_contains x JNull = Inl TypeError"
| "py_contains x (JBool b) = Inl TypeError"
| "py_contains x (JInt n) = Inl TypeError"
| "py_contains x (JFloat f) = Inl TypeError"

text \<open>Iteration, as \<^verbatim>\<open>for t in v\<close> and \<^verbatim>\<open>set(v)\<close> do it: a string yields its characters, a
  dict its keys.\<close>

fun py_iter :: "json \<Rightarrow> pyexc + json list" where
  "py_iter (JList xs) = Inr xs"
| "py_iter (JStr s) = Inr (map (\<lambda>c. JStr [c]) s)"
| "py_iter (JObj kvs) = Inr (map (\<lambda>kv. JStr (fst kv)) kvs)"
| "py_iter JNull = Inl TypeError"
| "py_iter (JBool b) = Inl TypeError"
| "py_iter (JInt n) = Inl TypeError"
| "py_iter (JFloat f) = Inl TypeError"

fun hashable :: "json \<Rightarrow> bool" where
  "hashable (JList xs) = False"
| "hashable (JObj kvs) = False"
| "hashable v = True"

text \<open>\<^verbatim>\<open>set(v)\<close>; the set is kept as the list of its elements, only membership is used.\<close>

definition py_set :: "json \<Rightarrow> pyexc + json list" where
  "py_set v =
     (case py_iter v of
        Inl e \<Rightarrow> Inl e
      | Inr xs \<Rightarrow> if list_all hashable xs then Inr xs else Inl TypeError)"

text \<open>\<^verbatim>\<open>s.strip()\<close> as a method call: only a string has the method.\<close>

fun strip_method :: "json \<Rightarrow> pyexc + string" where
  "strip_method (JStr s) = Inr (py_strip s)"
| "strip_method v = Inl AttributeError"

text \<open>\<^verbatim>\<open>(task.get(k, d) or d).strip()\<close>\<close>

definition task_str_field :: "pydict \<Rightarrow> string \<Rightarrow> string \<Rightarrow> pyexc + string" where
  "task_str_field task k d = strip_method (py_or (dict_get task k (JStr d)) (JStr d))"

subsection \<open>The clock\<close>

text \<open>\<^verbatim>\<open>datetime.datetime.now()\<close>, with \<^verbatim>\<open>weekday()\<close> and \<^verbatim>\<open>strftime\<close> as the standard
  library computes them (proleptic Gregorian ordinal, Monday is 0).\<close>

record datetime =
  dt_year :: nat
  dt_month :: nat
  dt_day :: nat
  dt_hour :: nat
  dt_minute :: nat
  dt_second :: nat

definition is_leap :: "nat \<Rightarrow> bool" where
  "is_leap y = (y mod 4 = 0 \<and> (y mod 100 \<noteq> 0 \<or> y mod 400 = 0))"

definition days_before_year :: "nat \<Rightarrow> nat" where
  "days_before_year y = (let y1 = y - 1 in (y1 * 365 + y1 div 4 + y1 div 400) - y1 div 100)"

definition days_before_month :: "nat \<Rightarrow> nat \<Rightarrow> nat" where
  "days_before_month y m =
     sum_list (take (m - 1) [31, 28, 31, 30, 31, 30, 31, 31, 30, 31, 30, 31])
     + (if 2 < m \<and> is_leap y then 1 else 0)"

definition toordinal :: "datetime \<Rightarrow> nat" where
  "toordinal d = days_before_year (dt_year d) + days_before_month (dt_year d) (dt_month d) + dt_day d"

definition weekday :: "datetime \<Rightarrow> nat" where
  "weekday d = (toordinal d + 6) mod 7"

definition days_map :: "string list" where
  "days_map = [''Mon'', ''Tue'', ''Wed'', ''Thu'', ''Fri'', ''Sat'', ''Sun'']"

definition today_of :: "datetime \<Rightarrow> string" where
  "today_of d = days_map ! weekday d"

definition digit_char :: "nat \<Rightarrow> char" where
  "digit_char n = char_of (48 + n mod 10)"

definition pad2 :: "nat \<Rightarrow> string" where
  "pad2 n = [digit_char (n div 10), digit_char n]"

definition pad4 :: "nat \<Rightarrow> string" where
  "pad4 n = [digit_char (n div 1000), digit_char (n div 100), digit_char (n div 10), digit_char n]"

text \<open>\<^verbatim>\<open>now.strftime("%H:%M")\<close> and \<^verbatim>\<open>now.strftime("%Y-%m-%d %H:%M")\<close>; the year is
  written with four digits, as the C library does for the years from 1000 on.\<close>

definition hhmm :: "datetime \<Rightarrow> string" where
  "hhmm d = pad2 (dt_hour d) @ '':'' @ pad2 (dt_minute d)"

definition stamp_minute :: "datetime \<Rightarrow> string" where
  "stamp_minute d =
     pad4 (dt_year d) @ ''-'' @ pad2 (dt_month d) @ ''-'' @ pad2 (dt_day d) @ '' '' @ hhmm d"

section \<open>The application state and its environment\<close>

text \<open>A path is the sequence of parts joined with \<^verbatim>\<open>/\<close> on a \<^verbatim>\<open>pathlib.Path\<close>.\<close>

type_synonym path = "string list"

text \<open>One constructor per \<^verbatim>\<open>self.log\<close> call site of the scheduler and the task runner;
  \<open>Traceback\<close> stands for the line that logs \<^verbatim>\<open>traceback.format_exc()\<close>.\<close>

datatype level = INFO | WARN | ERROR

datatype logmsg =
    TaskTrigger json string string
  | TaskCompleted json
  | TaskFailed json
  | ProfileNotFound string
  | PresetNotFound path
  | NoMappings
  | MissingFiles "string list"
  | DryWouldUpload path string
  | BackupOK string path
  | BackupSkipped string
  | Uploaded path string
  | UploadFailed pyexc
  | SchedulerError pyexc
  | Traceback

text \<open>What the program asks of the outside: FTP calls and the write of \<^verbatim>\<open>tasks.json\<close>,
  each with its outcome. \<open>EvRun i\<close> marks the call of \<^verbatim>\<open>_run_upload_for_task\<close> by the
  scheduler on the task at position \<open>i\<close> of the stored list, \<open>EvRunResult i ok\<close> its return
  with the value \<open>ok\<close>.\<close>

datatype event =
    EvRun nat
  | EvRunResult nat bool
  | EvConnect profile "pyexc option"
  | EvDownload string path bool
  | EvUpload path string "pyexc option"
  | EvClose
  | EvSave pydict "pyexc option"

text \<open>The environment answers each request; the answer may depend on everything that
  happened before (the events so far). \<open>None\<close> is a call that returns, \<open>Some e\<close> one that
  raises \<open>e\<close>.\<close>

record world =
  fs_exists :: "event list \<Rightarrow> path \<Rightarrow> bool"
  ftp_connect :: "event list \<Rightarrow> profile \<Rightarrow> int \<Rightarrow> pyexc option"
  ftp_download :: "event list \<Rightarrow> string \<Rightarrow> path \<Rightarrow> bool"
  ftp_upload :: "event list \<Rightarrow> path \<Rightarrow> string \<Rightarrow> pyexc option"
  now_stamp :: "event list \<Rightarrow> string"
  save_json :: "event list \<Rightarrow> pydict \<Rightarrow> pyexc option"

record app =
  a_profiles :: "profile list"
  a_mappings :: "mapping list"
  a_tasks_obj :: pydict
  a_presets_dir :: path
  a_logs_dir :: path
  a_timeout :: int
  a_tick_seconds :: int
  a_scheduler_running :: bool
  a_log :: "(level \<times> logmsg) list"
  a_trace :: "event list"

definition add_log :: "level \<Rightarrow> logmsg \<Rightarrow> app \<Rightarrow> app" where
  "add_log l m a = a\<lparr>a_log := a_log a @ [(l, m)]\<rparr>"

definition add_event :: "event \<Rightarrow> app \<Rightarrow> app" where
  "add_event e a = a\<lparr>a_trace := a_trace a @ [e]\<rparr>"

section \<open>The task runner\<close>

text \<open>
  \<^verbatim>\<open>FTPClient.download\<close> catches every exception and returns a boolean; the runner logs the
  outcome and goes on:
  \<^verbatim>\<open>
  bdir = LOGS_DIR / "backups" / p.name / preset_name / now_stamp()
  bpath = bdir / m.local_relpath
  ok = cli.download(remote_full, bpath)
  if ok: self.log.info(...Backup OK...)  else: self.log.warn(...Backup skipped/failed...)
  \<close>
\<close>

definition backup_step :: "world \<Rightarrow> profile \<Rightarrow> string \<Rightarrow> mapping \<Rightarrow> string \<Rightarrow> app \<Rightarrow> app" where
  "backup_step w p preset_name m rf a =
     (let bdir = a_logs_dir a @ [''backups'', p_name p, preset_name, now_stamp w (a_trace a)];
          bpath = bdir @ [m_local_relpath m];
          ok = ftp_download w (a_trace a) rf bpath;
          a1 = add_event (EvDownload rf bpath ok) a
      in if ok then add_log INFO (BackupOK rf bpath) a1
         else add_log WARN (BackupSkipped rf) a1)"

text \<open>The loop \<^verbatim>\<open>for m in use_mappings\<close> after \<^verbatim>\<open>cli.connect()\<close>: the first upload that
  raises ends it.\<close>

fun upload_loop ::
  "world \<Rightarrow> profile \<Rightarrow> string \<Rightarrow> path \<Rightarrow> string \<Rightarrow> mapping list \<Rightarrow> app \<Rightarrow> pyexc option \<times> app"
where
  "upload_loop w p preset_name preset_dir rt [] a = (None, a)"
| "upload_loop w p preset_name preset_dir rt (m # ms) a =
     (let local_file = preset_dir @ [m_local_relpath m];
          rf = remote_full rt (m_remote_path m);
          a1 = (if m_backup_before_overwrite m then backup_step w p preset_name m rf a else a)
      in case ftp_upload w (a_trace a1) local_file rf of
           Some e \<Rightarrow> (Some e, add_event (EvUpload local_file rf (Some e)) a1)
         | None \<Rightarrow>
             upload_loop w p preset_name preset_dir rt ms
               (add_log INFO (Uploaded local_file rf) (add_event (EvUpload local_file rf None) a1)))"

text \<open>The dry-run loop only logs.\<close>

fun dry_loop :: "path \<Rightarrow> string \<Rightarrow> mapping list \<Rightarrow> app \<Rightarrow> app" where
  "dry_loop preset_dir rt [] a = a"
| "dry_loop preset_dir rt (m # ms) a =
     dry_loop preset_dir rt ms
       (add_log INFO (DryWouldUpload (preset_dir @ [m_local_relpath m])
                                     (remote_full rt (m_remote_path m))) a)"

text \<open>The \<^verbatim>\<open>except Exception\<close> branch logs two error lines.\<close>

definition log_upload_failed :: "pyexc \<Rightarrow> app \<Rightarrow> app" where
  "log_upload_failed e a = add_log ERROR Traceback (add_log ERROR (UploadFailed e) a)"

text \<open>
  The \<^verbatim>\<open>try\<close> block of \<^verbatim>\<open>_run_upload_for_task\<close>. \<^verbatim>\<open>cli.close()\<close> in \<^verbatim>\<open>finally\<close> reaches
  the server only when \<^verbatim>\<open>connect\<close> had returned (\<^verbatim>\<open>self.ftp\<close> is set), and never raises.
\<close>

definition run_transfer ::
  "world \<Rightarrow> profile \<Rightarrow> string \<Rightarrow> path \<Rightarrow> mapping list \<Rightarrow> bool \<Rightarrow> app \<Rightarrow> bool \<times> app"
where
  "run_transfer w p preset_name preset_dir use dry_run a =
     (let rt = task_root (p_root p) in
      if dry_run then (True, dry_loop preset_dir rt use a)
      else
        (case ftp_connect w (a_trace a) p (a_timeout a) of
           Some e \<Rightarrow> (False, log_upload_failed e (add_event (EvConnect p (Some e)) a))
         | None \<Rightarrow>
             (case upload_loop w p preset_name preset_dir rt use (add_event (EvConnect p None) a) of
                (Some e, a') \<Rightarrow> (False, add_event EvClose (log_upload_failed e a'))
              | (None, a') \<Rightarrow> (True, add_event EvClose a'))))"

text \<open>\<^verbatim>\<open>missing = [m.local_relpath for m in use_mappings
             if not (preset_dir / m.local_relpath).exists()]\<close>\<close>

definition missing_files :: "world \<Rightarrow> app \<Rightarrow> path \<Rightarrow> mapping list \<Rightarrow> string list" where
  "missing_files w a preset_dir use =
     map m_local_relpath [m \<leftarrow> use. \<not> fs_exists w (a_trace a) (preset_dir @ [m_local_relpath m])]"

text \<open>\<^verbatim>\<open>next((x for x in self.profiles if x.name == profile_name), None)\<close>\<close>

definition find_profile :: "profile list \<Rightarrow> string \<Rightarrow> profile option" where
  "find_profile ps n = find (\<lambda>x. p_name x = n) ps"

text \<open>The four fields read at the top of \<^verbatim>\<open>_run_upload_for_task\<close>, in the order the code
  reads them; the first one that raises decides the exception.\<close>

definition task_fields :: "pydict \<Rightarrow> pyexc + (string \<times> string \<times> string \<times> json list)" where
  "task_fields task =
     (case task_str_field task ''profile'' '''' of
        Inl e \<Rightarrow> Inl e
      | Inr profile_name \<Rightarrow>
     (case task_str_field task ''preset'' '''' of
        Inl e \<Rightarrow> Inl e
      | Inr preset_name \<Rightarrow>
     (case task_str_field task ''mapping_mode'' ''enabled'' of
        Inl e \<Rightarrow> Inl e
      | Inr mode \<Rightarrow>
     (case py_set (py_or (dict_get task ''mappings'' (JList [])) (JList [])) of
        Inl e \<Rightarrow> Inl e
      | Inr selected_names \<Rightarrow> Inr (profile_name, preset_name, mode, selected_names)))))"

text \<open>
  \<^verbatim>\<open>_run_upload_for_task(self, task, dry_run)\<close>: four checks, each logging an error and
  returning \<^verbatim>\<open>False\<close>, then the transfer. An exception raised while the fields are read
  is outside the \<^verbatim>\<open>try\<close> block and leaves the function.
\<close>

definition run_upload_for_task :: "world \<Rightarrow> pydict \<Rightarrow> bool \<Rightarrow> app \<Rightarrow> (pyexc + bool) \<times> app" where
  "run_upload_for_task w task dry_run a =
     (case task_fields task of
        Inl e \<Rightarrow> (Inl e, a)
      | Inr (profile_name, preset_name, mode, selected_names) \<Rightarrow>
          (case find_profile (a_profiles a) profile_name of
             None \<Rightarrow> (Inr False, add_log ERROR (ProfileNotFound profile_name) a)
           | Some p \<Rightarrow>
               (let preset_dir = a_presets_dir a @ [preset_name] in
                if \<not> fs_exists w (a_trace a) preset_dir
                then (Inr False, add_log ERROR (PresetNotFound preset_dir) a)
                else
                  (let use = use_mappings mode selected_names (a_mappings a) in
                   if use = [] then (Inr False, add_log ERROR NoMappings a)
                   else
                     (let missing = missing_files w a preset_dir use in
                      if missing \<noteq> [] then (Inr False, add_log ERROR (MissingFiles missing) a)
                      else
                        (case run_transfer w p preset_name preset_dir use dry_run a of
                           (ok, a') \<Rightarrow> (Inr ok, a')))))))"

section \<open>The scheduler\<close>

text \<open>
  \<^verbatim>\<open>int(t.get("hour", -1)) != now.hour or int(t.get("minute", -1)) != now.minute\<close>:
  the minute is converted only when the hour is equal.
\<close>

definition hour_minute_differs :: "pydict \<Rightarrow> datetime \<Rightarrow> pyexc + bool" where
  "hour_minute_differs t now =
     (case py_int (dict_get t ''hour'' (JInt (- 1))) of
        Inl e \<Rightarrow> Inl e
      | Inr h \<Rightarrow>
          if h \<noteq> int (dt_hour now) then Inr True
          else (case py_int (dict_get t ''minute'' (JInt (- 1))) of
                  Inl e \<Rightarrow> Inl e
                | Inr m \<Rightarrow> Inr (m \<noteq> int (dt_minute now))))"

text \<open>The task dicts are the elements of the list \<^verbatim>\<open>self.tasks_obj["tasks"]\<close>, so an
  assignment to a key of the task at position \<open>i\<close> changes \<^verbatim>\<open>self.tasks_obj\<close>.\<close>

definition store_task :: "nat \<Rightarrow> pydict \<Rightarrow> app \<Rightarrow> app" where
  "store_task i t a =
     (case map_of (a_tasks_obj a) ''tasks'' of
        Some (JList ts) \<Rightarrow>
          a\<lparr>a_tasks_obj := dict_set (a_tasks_obj a) ''tasks'' (JList (ts[i := JObj t]))\<rparr>
      | _ \<Rightarrow> a)"

text \<open>\<^verbatim>\<open>save_tasks(self.tasks_obj)\<close>\<close>

definition save_tasks :: "world \<Rightarrow> app \<Rightarrow> pyexc option \<times> app" where
  "save_tasks w a =
     (let r = save_json w (a_trace a) (a_tasks_obj a)
      in (r, add_event (EvSave (a_tasks_obj a) r) a))"

text \<open>The end of the loop body of \<^verbatim>\<open>_check_tasks\<close>, from \<^verbatim>\<open>name = t.get("name","Task")\<close> on.\<close>

definition run_due_task :: "world \<Rightarrow> datetime \<Rightarrow> nat \<Rightarrow> pydict \<Rightarrow> app \<Rightarrow> pyexc option \<times> app" where
  "run_due_task w now i t a =
     (let name = dict_get t ''name'' (JStr ''Task'');
          dry = truthy (dict_get t ''dry_run'' (JBool False));
          a1 = add_log INFO (TaskTrigger name (today_of now) (hhmm now)) a
      in case run_upload_for_task w t dry (add_event (EvRun i) a1) of
           (Inl e, a2) \<Rightarrow> (Some e, a2)
         | (Inr ok, a2) \<Rightarrow>
             if ok then
               (case save_tasks w (store_task i (dict_set t ''last_run'' (JStr (stamp_minute now)))
                                     (add_event (EvRunResult i True) a2)) of
                  (Some e, a3) \<Rightarrow> (Some e, a3)
                | (None, a3) \<Rightarrow> (None, add_log INFO (TaskCompleted name) a3))
             else (None, add_log WARN (TaskFailed name) (add_event (EvRunResult i False) a2)))"

text \<open>One iteration of \<^verbatim>\<open>for t in self.tasks_obj.get("tasks", [])\<close>. \<open>(None, a)\<close> is
  \<^verbatim>\<open>continue\<close> or the normal end of the body; \<open>(Some e, a)\<close> is an exception leaving
  \<^verbatim>\<open>_check_tasks\<close>. Only the time comparison sits in a \<^verbatim>\<open>try\<close>.\<close>

definition check_one :: "world \<Rightarrow> datetime \<Rightarrow> nat \<Rightarrow> json \<Rightarrow> app \<Rightarrow> pyexc option \<times> app" where
  "check_one w now i tj a =
     (case tj of
        JObj t \<Rightarrow>
          if \<not> truthy (dict_get t ''enabled'' (JBool True)) then (None, a)
          else
            (case py_contains (today_of now) (dict_get t ''days'' (JList [])) of
               Inl e \<Rightarrow> (Some e, a)
             | Inr today_in_days \<Rightarrow>
                 if \<not> today_in_days then (None, a)
                 else
                   (case hour_minute_differs t now of
                      Inl e \<Rightarrow> (None, a)
                    | Inr differs \<Rightarrow>
                        if differs then (None, a)
                        else if py_or (dict_get t ''last_run'' JNull) (JStr '''') = JStr (stamp_minute now)
                        then (None, a)
                        else run_due_task w now i t a))
      | _ \<Rightarrow> (Some AttributeError, a))"

fun check_loop :: "world \<Rightarrow> datetime \<Rightarrow> (nat \<times> json) list \<Rightarrow> app \<Rightarrow> pyexc option \<times> app" where
  "check_loop w now [] a = (None, a)"
| "check_loop w now ((i, tj) # rest) a =
     (case check_one w now i tj a of
        (Some e, a') \<Rightarrow> (Some e, a')
      | (None, a') \<Rightarrow> check_loop w now rest a')"

text \<open>\<^verbatim>\<open>_check_tasks\<close>, with \<^verbatim>\<open>datetime.datetime.now()\<close> given.\<close>

definition check_tasks :: "world \<Rightarrow> datetime \<Rightarrow> app \<Rightarrow> pyexc option \<times> app" where
  "check_tasks w now a =
     (case py_iter (dict_get (a_tasks_obj a) ''tasks'' (JList [])) of
        Inl e \<Rightarrow> (Some e, a)
      | Inr ts \<Rightarrow> check_loop w now (enumerate 0 ts) a)"

text \<open>\<^verbatim>\<open>_tick\<close>: the result is the new state and the delay, in milliseconds, handed to
  \<^verbatim>\<open>self.after\<close>.\<close>

definition tick :: "world \<Rightarrow> datetime \<Rightarrow> app \<Rightarrow> app \<times> int" where
  "tick w now a =
     (let a' = (if a_scheduler_running a then
                  (case check_tasks w now a of
                     (None, a1) \<Rightarrow> a1
                   | (Some e, a1) \<Rightarrow> add_log ERROR Traceback (add_log ERROR (SchedulerError e) a1))
                else a)
      in (a', max 1000 (a_tick_seconds a' * 1000)))"

section \<open>Predicates used in the statements\<close>


text \<open>The resolver in the words of the specification: walk the stored mappings in order and
  keep, in mode \<^verbatim>\<open>enabled\<close>, those whose flag is set and, in mode \<^verbatim>\<open>selected\<close>, those whose
  name is among the selected names.\<close>

fun resolve_spec :: "string \<Rightarrow> json list \<Rightarrow> mapping list \<Rightarrow> mapping list" where
  "resolve_spec mode sel [] = []"
| "resolve_spec mode sel (m # ms) =
     (if (mode = ''enabled'' \<and> m_enabled m) \<or> (mode = ''selected'' \<and> JStr (m_name m) \<in> set sel)
      then m # resolve_spec mode sel ms
      else resolve_spec mode sel ms)"

text \<open>The task dicts stored in \<^verbatim>\<open>self.tasks_obj["tasks"]\<close>.\<close>

definition stored_tasks :: "app \<Rightarrow> json list" where
  "stored_tasks a = (case map_of (a_tasks_obj a) ''tasks'' of Some (JList ts) \<Rightarrow> ts | _ \<Rightarrow> [])"

text \<open>The requests and log lines added between two states.\<close>

definition new_events :: "app \<Rightarrow> app \<Rightarrow> event list" where
  "new_events a a' = drop (length (a_trace a)) (a_trace a')"

definition new_log :: "app \<Rightarrow> app \<Rightarrow> (level \<times> logmsg) list" where
  "new_log a a' = drop (length (a_log a)) (a_log a')"

text \<open>The four tests of the loop body of \<^verbatim>\<open>_check_tasks\<close> all let the task through: it is
  enabled, today is among its days, hour and minute are those of the clock, and its
  \<^verbatim>\<open>last_run\<close> is not the stamp of the current minute.\<close>

definition due :: "datetime \<Rightarrow> json \<Rightarrow> bool" where
  "due now tj =
     (case tj of
        JObj t \<Rightarrow>
          truthy (dict_get t ''enabled'' (JBool True))
          \<and> py_contains (today_of now) (dict_get t ''days'' (JList [])) = Inr True
          \<and> hour_minute_differs t now = Inr False
          \<and> py_or (dict_get t ''last_run'' JNull) (JStr '''') \<noteq> JStr (stamp_minute now)
      | _ \<Rightarrow> False)"

text \<open>
  What evaluating the tasks \<open>xs\<close> (pairs of a position in the stored list and the task found
  there) can do on the way from state \<open>a\<close> to state \<open>a'\<close>, adding the events \<open>evs\<close>: the
  runner is called, and returns, only for due tasks of \<open>xs\<close>; the stored list keeps its
  length; a stored task changes only when its run returned \<^verbatim>\<open>True\<close>, and then only in its
  \<^verbatim>\<open>last_run\<close>, which becomes the stamp of the current minute.
\<close>

definition steps_to :: "datetime \<Rightarrow> (nat \<times> json) list \<Rightarrow> app \<Rightarrow> app \<Rightarrow> event list \<Rightarrow> bool" where
  "steps_to now xs a a' evs \<longleftrightarrow>
     a_trace a' = a_trace a @ evs
     \<and> (\<forall>j. EvRun j \<in> set evs \<longrightarrow> (\<exists>tj. (j, tj) \<in> set xs \<and> due now tj))
     \<and> (\<forall>j ok. EvRunResult j ok \<in> set evs \<longrightarrow> (\<exists>tj. (j, tj) \<in> set xs \<and> due now tj))
     \<and> length (stored_tasks a') = length (stored_tasks a)
     \<and> (\<forall>j < length (stored_tasks a).
           (EvRunResult j True \<in> set evs \<longrightarrow>
              (\<exists>t. (j, JObj t) \<in> set xs
                 \<and> stored_tasks a' ! j = JObj (dict_set t ''last_run'' (JStr (stamp_minute now)))))
           \<and> (EvRunResult j True \<notin> set evs \<longrightarrow> stored_tasks a' ! j = stored_tasks a ! j))"

text \<open>The state \<open>a\<close> after more log lines and more requests to the outside; nothing else
  changed.\<close>

definition grow :: "app \<Rightarrow> (level \<times> logmsg) list \<Rightarrow> event list \<Rightarrow> app" where
  "grow a ls evs = a\<lparr>a_log := a_log a @ ls, a_trace := a_trace a @ evs\<rparr>"

fun is_upload :: "event \<Rightarrow> bool" where
  "is_upload (EvUpload l r e) = True"
| "is_upload ev = False"

fun is_network :: "event \<Rightarrow> bool" where
  "is_network (EvConnect p e) = True"
| "is_network (EvDownload r l ok) = True"
| "is_network (EvUpload l r e) = True"
| "is_network EvClose = True"
| "is_network ev = False"

section \<open>A sample configuration\<close>

text \<open>The scenario of the specification: one profile, mappings with and without a backup,
  a task due on Mondays at 09:00, and a clock that reads Monday 2026-11-02 09:00.\<close>

definition ex_profile :: profile where
  "ex_profile = \<lparr>p_name = ''srv'', p_host = ''ftp.example.org'', p_port = 21,
     p_username = ''u'', p_password = ''pw'', p_tls = False, p_root = ''/dayzstandalone/''\<rparr>"

definition ex_m1 :: mapping where
  "ex_m1 = \<lparr>m_name = ''loot'', m_enabled = True, m_local_relpath = ''loot.xml'',
     m_remote_path = ''configs/loot.xml'', m_backup_before_overwrite = True\<rparr>"

definition ex_m2 :: mapping where
  "ex_m2 = \<lparr>m_name = ''msg'', m_enabled = True, m_local_relpath = ''messages.xml'',
     m_remote_path = ''configs/messages.xml'', m_backup_before_overwrite = False\<rparr>"

definition ex_m3 :: mapping where
  "ex_m3 = \<lparr>m_name = ''off'', m_enabled = False, m_local_relpath = ''off.xml'',
     m_remote_path = ''off.xml'', m_backup_before_overwrite = False\<rparr>"

definition ex_task :: pydict where
  "ex_task = [(''name'', JStr ''swap''), (''enabled'', JBool True), (''profile'', JStr ''srv''),
     (''preset'', JStr ''raid''), (''days'', JList [JStr ''Mon'']), (''hour'', JInt 9),
     (''minute'', JInt 0), (''dry_run'', JBool False), (''mapping_mode'', JStr ''enabled''),
     (''mappings'', JList []), (''last_run'', JStr '''')]"

definition ex_now :: datetime where
  "ex_now = \<lparr>dt_year = 2026, dt_month = 11, dt_day = 2, dt_hour = 9, dt_minute = 0, dt_second = 7\<rparr>"

text \<open>Every file exists, the server accepts the connection and every upload, no remote
  file exists yet (each backup download fails), and \<^verbatim>\<open>tasks.json\<close> can be written.\<close>

definition ex_world :: world where
  "ex_world = \<lparr>fs_exists = (\<lambda>h p. True), ftp_connect = (\<lambda>h p t. None),
     ftp_download = (\<lambda>h r l. False), ftp_upload = (\<lambda>h l r. None),
     now_stamp = (\<lambda>h. ''20261102_090007''), save_json = (\<lambda>h d. None)\<rparr>"

definition ex_app :: "json list \<Rightarrow> app" where
  "ex_app ts = \<lparr>a_profiles = [ex_profile], a_mappings = [ex_m1, ex_m2, ex_m3],
     a_tasks_obj = [(''tasks'', JList ts)], a_presets_dir = [''presets''], a_logs_dir = [''logs''],
     a_timeout = 20, a_tick_seconds = 20, a_scheduler_running = True, a_log = [], a_trace = []\<rparr>"

text \<open>Variations: the second local file is missing; nothing exists on disk; \<^verbatim>\<open>tasks.json\<close>
  cannot be written; the first upload is refused.\<close>

definition ex_world_missing :: world where
  "ex_world_missing = ex_world\<lparr>fs_exists := (\<lambda>h p. p \<noteq> [''presets'', ''raid'', ''messages.xml''])\<rparr>"

definition ex_world_empty_disk :: world where
  "ex_world_empty_disk = ex_world\<lparr>fs_exists := (\<lambda>h p. False)\<rparr>"


definition ex_world_refused :: world where
  "ex_world_refused = ex_world\<lparr>ftp_upload := (\<lambda>h l r. Some (Failure ''550 denied''))\<rparr>"


text \<open>Variations of the task: a dry run; a selection that names only a deleted mapping; a
  profile that does not exist; a disabled task; an hour that is not a number; no hour.\<close>

definition ex_task_dry :: pydict where
  "ex_task_dry = dict_set ex_task ''dry_run'' (JBool True)"

definition ex_task_gone :: pydict where
  "ex_task_gone =
     dict_set (dict_set ex_task ''mapping_mode'' (JStr ''selected'')) ''mappings'' (JList [JStr ''gone''])"

definition ex_task_noprofile :: pydict where
  "ex_task_noprofile = dict_set ex_task ''profile'' (JStr ''nope'')"

definition ex_task_disabled :: pydict where
  "ex_task_disabled = dict_set ex_task ''enabled'' (JBool False)"



section \<open>Properties of the remote path\<close>


lemma lstrip_slash_suffix: "s = takeWhile (\<lambda>c. c = slash) s @ lstrip_slash s"
  by (simp add: lstrip_slash_def)





lemma rstrip_last: "rstrip_slash s \<noteq> [] \<Longrightarrow> last (rstrip_slash s) \<noteq> slash"
  using hd_dropWhile [of "\<lambda>c. c = slash" "rev s"] by (simp add: rstrip_slash_def last_rev)




lemma strip_last: "strip_slash s \<noteq> [] \<Longrightarrow> last (strip_slash s) \<noteq> slash"
  unfolding strip_slash_def by (rule rstrip_last)

















section \<open>Properties of mapping resolution\<close>

lemma resolve_spec_enabled: "resolve_spec ''enabled'' sel ms = filter m_enabled ms"
  by (induction ms) simp_all

lemma resolve_spec_selected:
  "resolve_spec ''selected'' sel ms = filter (\<lambda>m. JStr (m_name m) \<in> set sel) ms"
  by (induction ms) simp_all

text \<open>
  Claim C5. Mapping resolution is a function of the mode, the selected names and the stored
  mappings only. Mode \<^verbatim>\<open>enabled\<close> gives exactly the enabled mappings, mode \<^verbatim>\<open>selected\<close>
  exactly those whose name is among the selected names; the result keeps the stored order
  (it is a subsequence of the stored list, so a selected name without a mapping adds nothing),
  agrees with the resolver of the specification, and depends on the selected names as a set,
  not on their order.
\<close>

theorem use_mappings_resolve:
  "use_mappings ''enabled'' sel ms = filter m_enabled ms
   \<and> use_mappings ''selected'' sel ms = filter (\<lambda>m. JStr (m_name m) \<in> set sel) ms
   \<and> subseq (use_mappings mode sel ms) ms
   \<and> (mode = ''enabled'' \<or> mode = ''selected'' \<longrightarrow> use_mappings mode sel ms = resolve_spec mode sel ms)
   \<and> (set sel = set sel' \<longrightarrow> use_mappings mode sel ms = use_mappings mode sel' ms)"
proof (intro conjI impI)
  show "use_mappings ''enabled'' sel ms = filter m_enabled ms"
    by (simp add: use_mappings_def)
  show "use_mappings ''selected'' sel ms = filter (\<lambda>m. JStr (m_name m) \<in> set sel) ms"
    by (simp add: use_mappings_def)
  show "subseq (use_mappings mode sel ms) ms"
    by (simp add: use_mappings_def)
  show "use_mappings mode sel ms = resolve_spec mode sel ms" if "mode = ''enabled'' \<or> mode = ''selected''"
    using that by (auto simp: use_mappings_def resolve_spec_enabled resolve_spec_selected)
  show "use_mappings mode sel ms = use_mappings mode sel' ms" if "set sel = set sel'"
    using that by (simp add: use_mappings_def)
qed

text \<open>Three stored mappings, a selection in another order that names a deleted mapping.\<close>

theorem use_mappings_resolve_witness:
  "use_mappings ''selected'' [JStr ''msg'', JStr ''gone'', JStr ''loot''] [ex_m1, ex_m2, ex_m3]
     = resolve_spec ''selected'' [JStr ''msg'', JStr ''gone'', JStr ''loot''] [ex_m1, ex_m2, ex_m3]
   \<and> use_mappings ''selected'' [JStr ''msg'', JStr ''gone'', JStr ''loot''] [ex_m1, ex_m2, ex_m3]
     = use_mappings ''selected'' [JStr ''loot'', JStr ''gone'', JStr ''msg''] [ex_m1, ex_m2, ex_m3]
   \<and> use_mappings ''selected'' [JStr ''msg'', JStr ''gone'', JStr ''loot''] [ex_m1, ex_m2, ex_m3]
     = [ex_m1, ex_m2]"
proof -
  let ?sel = "[JStr ''msg'', JStr ''gone'', JStr ''loot'']"
  let ?sel' = "[JStr ''loot'', JStr ''gone'', JStr ''msg'']"
  let ?ms = "[ex_m1, ex_m2, ex_m3]"
  note t = use_mappings_resolve [of ?sel ?ms "''selected''" ?sel']
  have s: "set ?sel = set ?sel'" by auto
  have a: "use_mappings ''selected'' ?sel ?ms = resolve_spec ''selected'' ?sel ?ms"
    using t [THEN conjunct2, THEN conjunct2, THEN conjunct2, THEN conjunct1] by simp
  have b: "use_mappings ''selected'' ?sel ?ms = use_mappings ''selected'' ?sel' ?ms"
    using t [THEN conjunct2, THEN conjunct2, THEN conjunct2, THEN conjunct2] s by (rule mp)
  have c: "use_mappings ''selected'' ?sel ?ms = [ex_m1, ex_m2]"
    by (simp add: use_mappings_def ex_m1_def ex_m2_def ex_m3_def)
  from a b c show ?thesis by (intro conjI)
qed

section \<open>Properties of the task runner\<close>

lemma grow_Nil: "grow a [] [] = a"
  by (simp add: grow_def)

lemma grow_grow: "grow (grow a l1 e1) l2 e2 = grow a (l1 @ l2) (e1 @ e2)"
  by (simp add: grow_def)

lemma add_log_grow: "add_log l m a = grow a [(l, m)] []"
  by (simp add: add_log_def grow_def)

lemma add_event_grow: "add_event e a = grow a [] [e]"
  by (simp add: add_event_def grow_def)

lemma grow_fields:
  "a_log (grow a ls evs) = a_log a @ ls"
  "a_trace (grow a ls evs) = a_trace a @ evs"
  "a_tasks_obj (grow a ls evs) = a_tasks_obj a"
  "a_profiles (grow a ls evs) = a_profiles a"
  "a_mappings (grow a ls evs) = a_mappings a"
  "a_presets_dir (grow a ls evs) = a_presets_dir a"
  "a_logs_dir (grow a ls evs) = a_logs_dir a"
  "a_timeout (grow a ls evs) = a_timeout a"
  "a_tick_seconds (grow a ls evs) = a_tick_seconds a"
  "a_scheduler_running (grow a ls evs) = a_scheduler_running a"
  by (simp_all add: grow_def)

lemma grow_inject: "grow a ls evs = grow a ls' evs' \<longleftrightarrow> ls = ls' \<and> evs = evs'"
proof
  assume h: "grow a ls evs = grow a ls' evs'"
  have "a_log (grow a ls evs) = a_log (grow a ls' evs')" using h by simp
  moreover have "a_trace (grow a ls evs) = a_trace (grow a ls' evs')" using h by simp
  ultimately show "ls = ls' \<and> evs = evs'" by (simp add: grow_fields)
next
  assume "ls = ls' \<and> evs = evs'"
  then show "grow a ls evs = grow a ls' evs'" by simp
qed

lemma dry_loop_grow:
  "dry_loop pd rt ms a =
     grow a (map (\<lambda>m. (INFO, DryWouldUpload (pd @ [m_local_relpath m]) (remote_full rt (m_remote_path m)))) ms) []"
proof (induction ms arbitrary: a)
  case Nil
  show ?case by (simp add: grow_Nil)
next
  case (Cons m ms)
  show ?case by (simp add: Cons.IH add_log_grow grow_grow)
qed

lemma backup_step_grow:
  "\<exists>bp ok. backup_step w p pn m rf a =
     grow a [if ok then (INFO, BackupOK rf bp) else (WARN, BackupSkipped rf)] [EvDownload rf bp ok]"
proof -
  let ?bp = "a_logs_dir a @ [''backups'', p_name p, pn, now_stamp w (a_trace a)] @ [m_local_relpath m]"
  let ?ok = "ftp_download w (a_trace a) rf ?bp"
  have "backup_step w p pn m rf a =
     grow a [if ?ok then (INFO, BackupOK rf ?bp) else (WARN, BackupSkipped rf)] [EvDownload rf ?bp ?ok]"
    by (simp add: backup_step_def Let_def add_log_grow add_event_grow grow_grow)
  then show ?thesis by blast
qed


lemma upload_loop_step:
  assumes "ftp_upload w (a_trace a1) (pd @ [m_local_relpath m]) (remote_full rt (m_remote_path m)) = None"
    and "a1 = (if m_backup_before_overwrite m
               then backup_step w p pn m (remote_full rt (m_remote_path m)) a else a)"
  shows "upload_loop w p pn pd rt (m # ms) a =
         upload_loop w p pn pd rt ms
           (grow a1 [(INFO, Uploaded (pd @ [m_local_relpath m]) (remote_full rt (m_remote_path m)))]
                    [EvUpload (pd @ [m_local_relpath m]) (remote_full rt (m_remote_path m)) None])"
  using assms by (simp add: Let_def add_log_grow add_event_grow grow_grow)

lemma upload_loop_ok:
  assumes up: "\<And>h l r. ftp_upload w h l r = None"
  shows "\<exists>ls evs. upload_loop w p pn pd rt ms a = (None, grow a ls evs)
      \<and> filter is_upload evs
          = map (\<lambda>m. EvUpload (pd @ [m_local_relpath m]) (remote_full rt (m_remote_path m)) None) ms
      \<and> (\<forall>rf bp. EvDownload rf bp False \<in> set evs \<longrightarrow> (WARN, BackupSkipped rf) \<in> set ls)
      \<and> (\<forall>m\<in>set ms. m_backup_before_overwrite m \<longrightarrow>
            (\<exists>bp ok. EvDownload (remote_full rt (m_remote_path m)) bp ok \<in> set evs))"
proof (induction ms arbitrary: a)
  case Nil
  have "upload_loop w p pn pd rt [] a = (None, grow a [] [])"
    by (simp add: grow_Nil)
  then show ?case by fastforce
next
  case (Cons m ms)
  let ?lf = "pd @ [m_local_relpath m]"
  let ?rf = "remote_full rt (m_remote_path m)"
  define a1 where "a1 = (if m_backup_before_overwrite m then backup_step w p pn m ?rf a else a)"
  have "\<exists>l1 e1. a1 = grow a l1 e1
          \<and> filter is_upload e1 = []
          \<and> (\<forall>rf bp. EvDownload rf bp False \<in> set e1 \<longrightarrow> (WARN, BackupSkipped rf) \<in> set l1)
          \<and> (m_backup_before_overwrite m \<longrightarrow> (\<exists>bp ok. EvDownload ?rf bp ok \<in> set e1))"
  proof (cases "m_backup_before_overwrite m")
    case True
    obtain bp ok where "backup_step w p pn m ?rf a =
        grow a [if ok then (INFO, BackupOK ?rf bp) else (WARN, BackupSkipped ?rf)] [EvDownload ?rf bp ok]"
      using backup_step_grow by blast
    then have "a1 = grow a [if ok then (INFO, BackupOK ?rf bp) else (WARN, BackupSkipped ?rf)] [EvDownload ?rf bp ok]"
      using True by (simp add: a1_def)
    moreover have "filter is_upload [EvDownload ?rf bp ok] = []" by simp
    moreover have "\<forall>rf' bp'. EvDownload rf' bp' False \<in> set [EvDownload ?rf bp ok] \<longrightarrow>
        (WARN, BackupSkipped rf') \<in> set [if ok then (INFO, BackupOK ?rf bp) else (WARN, BackupSkipped ?rf)]"
      by simp
    moreover have "\<exists>bp' ok'. EvDownload ?rf bp' ok' \<in> set [EvDownload ?rf bp ok]" by simp
    ultimately show ?thesis by blast
  next
    case False
    then have "a1 = grow a [] []" by (simp add: a1_def grow_Nil)
    then show ?thesis using False by fastforce
  qed
  then obtain l1 e1 where a1: "a1 = grow a l1 e1"
    and e1u: "filter is_upload e1 = []"
    and e1w: "\<forall>rf bp. EvDownload rf bp False \<in> set e1 \<longrightarrow> (WARN, BackupSkipped rf) \<in> set l1"
    and e1b: "m_backup_before_overwrite m \<longrightarrow> (\<exists>bp ok. EvDownload ?rf bp ok \<in> set e1)"
    by blast
  define a2 where "a2 = grow a1 [(INFO, Uploaded ?lf ?rf)] [EvUpload ?lf ?rf None]"
  have step: "upload_loop w p pn pd rt (m # ms) a = upload_loop w p pn pd rt ms a2"
    unfolding a2_def by (rule upload_loop_step [OF up a1_def])
  have a2: "a2 = grow a (l1 @ [(INFO, Uploaded ?lf ?rf)]) (e1 @ [EvUpload ?lf ?rf None])"
    by (simp add: a2_def a1 grow_grow)
  obtain ls evs where r: "upload_loop w p pn pd rt ms a2 = (None, grow a2 ls evs)"
    and ru: "filter is_upload evs
          = map (\<lambda>m. EvUpload (pd @ [m_local_relpath m]) (remote_full rt (m_remote_path m)) None) ms"
    and rw: "\<forall>rf bp. EvDownload rf bp False \<in> set evs \<longrightarrow> (WARN, BackupSkipped rf) \<in> set ls"
    and rb: "\<forall>m\<in>set ms. m_backup_before_overwrite m \<longrightarrow>
            (\<exists>bp ok. EvDownload (remote_full rt (m_remote_path m)) bp ok \<in> set evs)"
    using Cons.IH [of a2] by blast
  let ?ls = "l1 @ [(INFO, Uploaded ?lf ?rf)] @ ls"
  let ?evs = "e1 @ [EvUpload ?lf ?rf None] @ evs"
  have g: "grow a2 ls evs = grow a ?ls ?evs"
    by (simp add: a2 grow_grow)
  have c1: "upload_loop w p pn pd rt (m # ms) a = (None, grow a ?ls ?evs)"
    using step r g by (simp only:)
  have c2: "filter is_upload ?evs
          = map (\<lambda>m. EvUpload (pd @ [m_local_relpath m]) (remote_full rt (m_remote_path m)) None) (m # ms)"
    by (simp add: e1u ru)
  have c3: "\<forall>rf bp. EvDownload rf bp False \<in> set ?evs \<longrightarrow> (WARN, BackupSkipped rf) \<in> set ?ls"
    using e1w rw by auto
  have c4: "\<forall>m'\<in>set (m # ms). m_backup_before_overwrite m' \<longrightarrow>
            (\<exists>bp ok. EvDownload (remote_full rt (m_remote_path m')) bp ok \<in> set ?evs)"
  proof (intro ballI impI)
    fix m' assume m': "m' \<in> set (m # ms)" and b: "m_backup_before_overwrite m'"
    show "\<exists>bp ok. EvDownload (remote_full rt (m_remote_path m')) bp ok \<in> set ?evs"
    proof (cases "m' = m")
      case True
      then obtain bp ok where "EvDownload ?rf bp ok \<in> set e1" using e1b b by blast
      then have "EvDownload (remote_full rt (m_remote_path m')) bp ok \<in> set ?evs"
        using True by simp
      then show ?thesis by blast
    next
      case False
      then have "m' \<in> set ms" using m' by simp
      then obtain bp ok where "EvDownload (remote_full rt (m_remote_path m')) bp ok \<in> set evs"
        using rb b by blast
      then have "EvDownload (remote_full rt (m_remote_path m')) bp ok \<in> set ?evs" by simp
      then show ?thesis by blast
    qed
  qed
  show ?case using c1 c2 c3 c4 by blast
qed


lemma upload_loop_frame:
  "\<exists>ls evs. snd (upload_loop w p pn pd rt ms a) = grow a ls evs \<and> list_all is_network evs"
proof (induction ms arbitrary: a)
  case Nil
  have "snd (upload_loop w p pn pd rt [] a) = grow a [] []" by (simp add: grow_Nil)
  then show ?case by fastforce
next
  case (Cons m ms)
  let ?lf = "pd @ [m_local_relpath m]"
  let ?rf = "remote_full rt (m_remote_path m)"
  define a1 where "a1 = (if m_backup_before_overwrite m then backup_step w p pn m ?rf a else a)"
  have "\<exists>l1 e1. a1 = grow a l1 e1 \<and> list_all is_network e1"
  proof (cases "m_backup_before_overwrite m")
    case True
    obtain bp ok where "backup_step w p pn m ?rf a =
        grow a [if ok then (INFO, BackupOK ?rf bp) else (WARN, BackupSkipped ?rf)] [EvDownload ?rf bp ok]"
      using backup_step_grow by blast
    then have "a1 = grow a [if ok then (INFO, BackupOK ?rf bp) else (WARN, BackupSkipped ?rf)] [EvDownload ?rf bp ok]"
      using True by (simp add: a1_def)
    moreover have "list_all is_network [EvDownload ?rf bp ok]" by simp
    ultimately show ?thesis by blast
  next
    case False
    then have "a1 = grow a [] []" by (simp add: a1_def grow_Nil)
    then show ?thesis by fastforce
  qed
  then obtain l1 e1 where a1: "a1 = grow a l1 e1" and n1: "list_all is_network e1" by blast
  show ?case
  proof (cases "ftp_upload w (a_trace a1) ?lf ?rf")
    case None
    define a2 where "a2 = grow a1 [(INFO, Uploaded ?lf ?rf)] [EvUpload ?lf ?rf None]"
    have step: "upload_loop w p pn pd rt (m # ms) a = upload_loop w p pn pd rt ms a2"
      unfolding a2_def by (rule upload_loop_step [OF None a1_def])
    obtain ls evs where r: "snd (upload_loop w p pn pd rt ms a2) = grow a2 ls evs"
      and rn: "list_all is_network evs"
      using Cons.IH [of a2] by blast
    have "grow a2 ls evs = grow a (l1 @ [(INFO, Uploaded ?lf ?rf)] @ ls) (e1 @ [EvUpload ?lf ?rf None] @ evs)"
      by (simp add: a2_def a1 grow_grow)
    then have "snd (upload_loop w p pn pd rt (m # ms) a)
        = grow a (l1 @ [(INFO, Uploaded ?lf ?rf)] @ ls) (e1 @ [EvUpload ?lf ?rf None] @ evs)"
      using step r by (simp only:)
    moreover have "list_all is_network (e1 @ [EvUpload ?lf ?rf None] @ evs)"
      using n1 rn by simp
    ultimately show ?thesis by blast
  next
    case (Some e)
    have "upload_loop w p pn pd rt (m # ms) a = (Some e, add_event (EvUpload ?lf ?rf (Some e)) a1)"
      using Some by (simp add: Let_def a1_def)
    then have "snd (upload_loop w p pn pd rt (m # ms) a) = grow a l1 (e1 @ [EvUpload ?lf ?rf (Some e)])"
      by (simp add: a1 add_event_grow grow_grow)
    moreover have "list_all is_network (e1 @ [EvUpload ?lf ?rf (Some e)])" using n1 by simp
    ultimately show ?thesis by blast
  qed
qed

lemma log_upload_failed_grow:
  "log_upload_failed e a = grow a [(ERROR, UploadFailed e), (ERROR, Traceback)] []"
  by (simp add: log_upload_failed_def add_log_grow grow_grow)

lemma run_transfer_dry:
  "run_transfer w p pn pd use True a =
     (True, grow a (map (\<lambda>m. (INFO, DryWouldUpload (pd @ [m_local_relpath m])
                                  (effective_remote (p_root p) (m_remote_path m)))) use) [])"
  by (simp add: run_transfer_def dry_loop_grow effective_remote_def)

lemma run_transfer_frame:
  "\<exists>ls evs. snd (run_transfer w p pn pd use dry a) = grow a ls evs \<and> list_all is_network evs"
proof (cases dry)
  case True
  then have "snd (run_transfer w p pn pd use dry a) =
      grow a (map (\<lambda>m. (INFO, DryWouldUpload (pd @ [m_local_relpath m])
                                  (effective_remote (p_root p) (m_remote_path m)))) use) []"
    by (simp add: run_transfer_dry)
  moreover have "list_all is_network []" by simp
  ultimately show ?thesis by blast
next
  case False
  show ?thesis
  proof (cases "ftp_connect w (a_trace a) p (a_timeout a)")
    case (Some e)
    have "snd (run_transfer w p pn pd use dry a)
        = grow a [(ERROR, UploadFailed e), (ERROR, Traceback)] [EvConnect p (Some e)]"
      using False Some
      by (simp add: run_transfer_def log_upload_failed_grow add_event_grow grow_grow)
    moreover have "list_all is_network [EvConnect p (Some e)]" by simp
    ultimately show ?thesis by blast
  next
    case None
    let ?a1 = "grow a [] [EvConnect p None]"
    obtain ls evs where r: "snd (upload_loop w p pn pd (task_root (p_root p)) use ?a1) = grow ?a1 ls evs"
      and rn: "list_all is_network evs"
      using upload_loop_frame by blast
    obtain x a' where u: "upload_loop w p pn pd (task_root (p_root p)) use ?a1 = (x, a')"
      by (cases "upload_loop w p pn pd (task_root (p_root p)) use ?a1") blast
    have a': "a' = grow a ls (EvConnect p None # evs)" using r u by (simp add: grow_grow)
    show ?thesis
    proof (cases x)
      case None
      have "snd (run_transfer w p pn pd use dry a) = grow a ls (EvConnect p None # evs @ [EvClose])"
        using False \<open>ftp_connect w (a_trace a) p (a_timeout a) = None\<close> u None
        by (simp add: run_transfer_def add_event_grow a' grow_grow)
      moreover have "list_all is_network (EvConnect p None # evs @ [EvClose])" using rn by simp
      ultimately show ?thesis by blast
    next
      case (Some e)
      have "snd (run_transfer w p pn pd use dry a)
          = grow a (ls @ [(ERROR, UploadFailed e), (ERROR, Traceback)]) (EvConnect p None # evs @ [EvClose])"
        using False \<open>ftp_connect w (a_trace a) p (a_timeout a) = None\<close> u Some
        by (simp add: run_transfer_def add_event_grow log_upload_failed_grow a' grow_grow)
      moreover have "list_all is_network (EvConnect p None # evs @ [EvClose])" using rn by simp
      ultimately show ?thesis by blast
    qed
  qed
qed

lemma missing_files_Nil:
  "missing_files w a pd use = [] \<longleftrightarrow> (\<forall>m\<in>set use. fs_exists w (a_trace a) (pd @ [m_local_relpath m]))"
  by (simp add: missing_files_def filter_empty_conv)

lemma run_upload_cases:
  assumes "task_fields task = Inr (pn, preset, mode, sel)"
  shows "run_upload_for_task w task dry a =
     (case find_profile (a_profiles a) pn of
        None \<Rightarrow> (Inr False, grow a [(ERROR, ProfileNotFound pn)] [])
      | Some p \<Rightarrow>
          if \<not> fs_exists w (a_trace a) (a_presets_dir a @ [preset])
          then (Inr False, grow a [(ERROR, PresetNotFound (a_presets_dir a @ [preset]))] [])
          else if use_mappings mode sel (a_mappings a) = []
          then (Inr False, grow a [(ERROR, NoMappings)] [])
          else if missing_files w a (a_presets_dir a @ [preset]) (use_mappings mode sel (a_mappings a)) \<noteq> []
          then (Inr False, grow a [(ERROR, MissingFiles (missing_files w a (a_presets_dir a @ [preset])
                                      (use_mappings mode sel (a_mappings a))))] [])
          else (Inr (fst (run_transfer w p preset (a_presets_dir a @ [preset])
                       (use_mappings mode sel (a_mappings a)) dry a)),
                snd (run_transfer w p preset (a_presets_dir a @ [preset])
                       (use_mappings mode sel (a_mappings a)) dry a)))"
  using assms
  by (simp add: run_upload_for_task_def Let_def add_log_grow split: option.split prod.split)

lemma run_upload_frame:
  "\<exists>ls evs. snd (run_upload_for_task w task dry a) = grow a ls evs \<and> list_all is_network evs"
proof (cases "task_fields task")
  case (Inl e)
  then have "snd (run_upload_for_task w task dry a) = grow a [] []"
    by (simp add: run_upload_for_task_def grow_Nil)
  moreover have "list_all is_network []" by simp
  ultimately show ?thesis by blast
next
  case (Inr f)
  obtain pn preset mode sel where f: "f = (pn, preset, mode, sel)" by (cases f) blast
  let ?pd = "a_presets_dir a @ [preset]"
  let ?use = "use_mappings mode sel (a_mappings a)"
  note c = run_upload_cases [OF Inr [unfolded f], of w dry a]
  have e: "list_all is_network []" by simp
  show ?thesis
  proof (cases "find_profile (a_profiles a) pn")
    case None
    then have "snd (run_upload_for_task w task dry a) = grow a [(ERROR, ProfileNotFound pn)] []"
      using c by simp
    then show ?thesis using e by blast
  next
    case (Some p)
    consider (nopreset) "\<not> fs_exists w (a_trace a) ?pd"
      | (nomap) "fs_exists w (a_trace a) ?pd" "?use = []"
      | (missing) "fs_exists w (a_trace a) ?pd" "?use \<noteq> []" "missing_files w a ?pd ?use \<noteq> []"
      | (transfer) "fs_exists w (a_trace a) ?pd" "?use \<noteq> []" "missing_files w a ?pd ?use = []"
      by blast
    then show ?thesis
    proof cases
      case nopreset
      then have "snd (run_upload_for_task w task dry a) = grow a [(ERROR, PresetNotFound ?pd)] []"
        using c Some by simp
      then show ?thesis using e by blast
    next
      case nomap
      then have "snd (run_upload_for_task w task dry a) = grow a [(ERROR, NoMappings)] []"
        using c Some by simp
      then show ?thesis using e by blast
    next
      case missing
      then have "snd (run_upload_for_task w task dry a)
          = grow a [(ERROR, MissingFiles (missing_files w a ?pd ?use))] []"
        using c Some by simp
      then show ?thesis using e by blast
    next
      case transfer
      then have "snd (run_upload_for_task w task dry a) = snd (run_transfer w p preset ?pd ?use dry a)"
        using c Some by simp
      then show ?thesis using run_transfer_frame [of w p preset ?pd ?use dry a] by simp
    qed
  qed
qed

text \<open>
  Claim C3. Once the four fields of the task are read, \<^verbatim>\<open>_run_upload_for_task\<close> checks, in
  this order, that the profile exists, that the preset directory exists, that the resolved
  mapping list is not empty and that every local file exists. Each failed check returns
  \<^verbatim>\<open>False\<close> with exactly one error line and without any request to the server or the disk
  (the trace is unchanged). In particular an empty resolved list or a single missing local
  file gives \<^verbatim>\<open>False\<close> with no connection and no upload, whatever the other checks say.
\<close>

theorem run_preconditions_before_network:
  fixes w :: world and a :: app and task :: pydict and dry :: bool
  assumes "task_fields task = Inr (pn, preset, mode, sel)"
  defines "pd \<equiv> a_presets_dir a @ [preset]"
    and "use \<equiv> use_mappings mode sel (a_mappings a)"
    and "r \<equiv> run_upload_for_task w task dry a"
  shows
    "(find_profile (a_profiles a) pn = None
        \<longrightarrow> r = (Inr False, grow a [(ERROR, ProfileNotFound pn)] []))
     \<and> (find_profile (a_profiles a) pn \<noteq> None \<and> \<not> fs_exists w (a_trace a) pd
        \<longrightarrow> r = (Inr False, grow a [(ERROR, PresetNotFound pd)] []))
     \<and> (find_profile (a_profiles a) pn \<noteq> None \<and> fs_exists w (a_trace a) pd \<and> use = []
        \<longrightarrow> r = (Inr False, grow a [(ERROR, NoMappings)] []))
     \<and> (find_profile (a_profiles a) pn \<noteq> None \<and> fs_exists w (a_trace a) pd \<and> use \<noteq> []
          \<and> (\<exists>m\<in>set use. \<not> fs_exists w (a_trace a) (pd @ [m_local_relpath m]))
        \<longrightarrow> r = (Inr False, grow a [(ERROR, MissingFiles (missing_files w a pd use))] []))
     \<and> (use = [] \<or> (\<exists>m\<in>set use. \<not> fs_exists w (a_trace a) (pd @ [m_local_relpath m]))
        \<longrightarrow> fst r = Inr False \<and> a_trace (snd r) = a_trace a)"
proof -
  note c = run_upload_cases [OF assms(1), of w dry a, folded pd_def use_def r_def]
  have m: "missing_files w a pd use \<noteq> [] \<longleftrightarrow> (\<exists>m\<in>set use. \<not> fs_exists w (a_trace a) (pd @ [m_local_relpath m]))"
    using missing_files_Nil [of w a pd use] by blast
  have c1: "find_profile (a_profiles a) pn = None
        \<longrightarrow> r = (Inr False, grow a [(ERROR, ProfileNotFound pn)] [])"
    using c by simp
  have c2: "find_profile (a_profiles a) pn \<noteq> None \<and> \<not> fs_exists w (a_trace a) pd
        \<longrightarrow> r = (Inr False, grow a [(ERROR, PresetNotFound pd)] [])"
    using c by auto
  have c3: "find_profile (a_profiles a) pn \<noteq> None \<and> fs_exists w (a_trace a) pd \<and> use = []
        \<longrightarrow> r = (Inr False, grow a [(ERROR, NoMappings)] [])"
    using c by auto
  have c4: "find_profile (a_profiles a) pn \<noteq> None \<and> fs_exists w (a_trace a) pd \<and> use \<noteq> []
          \<and> (\<exists>m\<in>set use. \<not> fs_exists w (a_trace a) (pd @ [m_local_relpath m]))
        \<longrightarrow> r = (Inr False, grow a [(ERROR, MissingFiles (missing_files w a pd use))] [])"
    using c m by auto
  have c5: "use = [] \<or> (\<exists>m\<in>set use. \<not> fs_exists w (a_trace a) (pd @ [m_local_relpath m]))
        \<longrightarrow> fst r = Inr False \<and> a_trace (snd r) = a_trace a"
  proof
    assume h: "use = [] \<or> (\<exists>m\<in>set use. \<not> fs_exists w (a_trace a) (pd @ [m_local_relpath m]))"
    then have h': "use = [] \<or> missing_files w a pd use \<noteq> []" using m by blast
    show "fst r = Inr False \<and> a_trace (snd r) = a_trace a"
    proof (cases "find_profile (a_profiles a) pn")
      case None
      then show ?thesis using c1 by (simp add: grow_fields)
    next
      case (Some p)
      then show ?thesis using c h' by (auto simp: grow_fields)
    qed
  qed
  show ?thesis using c1 c2 c3 c4 c5 by (intro conjI)
qed


text \<open>One run per failing check: an unknown profile, an empty disk, a selection that names
  only a deleted mapping, and a preset in which the second file is missing.\<close>

theorem run_preconditions_before_network_witness:
  "run_upload_for_task ex_world ex_task_noprofile False (ex_app [])
     = (Inr False, grow (ex_app []) [(ERROR, ProfileNotFound ''nope'')] [])
   \<and> run_upload_for_task ex_world_empty_disk ex_task False (ex_app [])
     = (Inr False, grow (ex_app []) [(ERROR, PresetNotFound (a_presets_dir (ex_app []) @ [''raid'']))] [])
   \<and> run_upload_for_task ex_world ex_task_gone False (ex_app [])
     = (Inr False, grow (ex_app []) [(ERROR, NoMappings)] [])
   \<and> run_upload_for_task ex_world_missing ex_task False (ex_app [])
     = (Inr False, grow (ex_app []) [(ERROR, MissingFiles [''messages.xml''])] [])
   \<and> a_trace (snd (run_upload_for_task ex_world_missing ex_task False (ex_app []))) = a_trace (ex_app [])"
proof -
  let ?a = "ex_app []"
  have f1: "task_fields ex_task_noprofile = Inr (''nope'', ''raid'', ''enabled'', [])" by code_simp
  have f2: "task_fields ex_task = Inr (''srv'', ''raid'', ''enabled'', [])" by code_simp
  have f3: "task_fields ex_task_gone = Inr (''srv'', ''raid'', ''selected'', [JStr ''gone''])" by code_simp
  have h1: "find_profile (a_profiles ?a) ''nope'' = None" by code_simp
  have h2: "find_profile (a_profiles ?a) ''srv'' \<noteq> None
            \<and> \<not> fs_exists ex_world_empty_disk (a_trace ?a) (a_presets_dir ?a @ [''raid''])"
    by code_simp
  have h3: "find_profile (a_profiles ?a) ''srv'' \<noteq> None
            \<and> fs_exists ex_world (a_trace ?a) (a_presets_dir ?a @ [''raid''])
            \<and> use_mappings ''selected'' [JStr ''gone''] (a_mappings ?a) = []"
    by code_simp
  have h4: "find_profile (a_profiles ?a) ''srv'' \<noteq> None
            \<and> fs_exists ex_world_missing (a_trace ?a) (a_presets_dir ?a @ [''raid''])
            \<and> use_mappings ''enabled'' [] (a_mappings ?a) \<noteq> []
            \<and> (\<exists>m\<in>set (use_mappings ''enabled'' [] (a_mappings ?a)).
                  \<not> fs_exists ex_world_missing (a_trace ?a) ((a_presets_dir ?a @ [''raid'']) @ [m_local_relpath m]))"
    by code_simp
  have h5: "use_mappings ''enabled'' [] (a_mappings ?a) = []
            \<or> (\<exists>m\<in>set (use_mappings ''enabled'' [] (a_mappings ?a)).
                  \<not> fs_exists ex_world_missing (a_trace ?a) ((a_presets_dir ?a @ [''raid'']) @ [m_local_relpath m]))"
    using h4 by blast
  have e4: "missing_files ex_world_missing ?a (a_presets_dir ?a @ [''raid''])
              (use_mappings ''enabled'' [] (a_mappings ?a)) = [''messages.xml'']"
    by code_simp
  note t1 = run_preconditions_before_network [OF f1, where a = ?a and w = ex_world and dry = False]
  note t2 = run_preconditions_before_network [OF f2, where a = ?a and w = ex_world_empty_disk and dry = False]
  note t3 = run_preconditions_before_network [OF f3, where a = ?a and w = ex_world and dry = False]
  note t4 = run_preconditions_before_network [OF f2, where a = ?a and w = ex_world_missing and dry = False]
  have r1: "run_upload_for_task ex_world ex_task_noprofile False ?a
     = (Inr False, grow ?a [(ERROR, ProfileNotFound ''nope'')] [])"
    using t1 [THEN conjunct1] h1 by (rule mp)
  have r2: "run_upload_for_task ex_world_empty_disk ex_task False ?a
     = (Inr False, grow ?a [(ERROR, PresetNotFound (a_presets_dir ?a @ [''raid'']))] [])"
    using t2 [THEN conjunct2, THEN conjunct1] h2 by (rule mp)
  have r3: "run_upload_for_task ex_world ex_task_gone False ?a
     = (Inr False, grow ?a [(ERROR, NoMappings)] [])"
    using t3 [THEN conjunct2, THEN conjunct2, THEN conjunct1] h3 by (rule mp)
  have r4: "run_upload_for_task ex_world_missing ex_task False ?a
     = (Inr False, grow ?a [(ERROR, MissingFiles [''messages.xml''])] [])"
    using t4 [THEN conjunct2, THEN conjunct2, THEN conjunct2, THEN conjunct1, THEN mp, OF h4]
    by (simp only: e4)
  have r5: "a_trace (snd (run_upload_for_task ex_world_missing ex_task False ?a)) = a_trace ?a"
    using t4 [THEN conjunct2, THEN conjunct2, THEN conjunct2, THEN conjunct2, THEN mp, OF h5]
    by (rule conjunct2)
  from r1 r2 r3 r4 r5 show ?thesis by (intro conjI)
qed

lemma run_upload_dry_trace:
  "a_trace (snd (run_upload_for_task w task True a)) = a_trace a"
proof (cases "task_fields task")
  case (Inl e)
  then show ?thesis by (simp add: run_upload_for_task_def)
next
  case (Inr f)
  obtain pn preset mode sel where f: "f = (pn, preset, mode, sel)" by (cases f) blast
  note c = run_upload_cases [OF Inr [unfolded f], of w True a]
  show ?thesis
  proof (cases "find_profile (a_profiles a) pn")
    case None
    then show ?thesis using c by (simp add: grow_fields)
  next
    case (Some p)
    then show ?thesis using c by (simp add: grow_fields run_transfer_dry)
  qed
qed

text \<open>
  Claim C6. A run with the dry-run flag set never asks anything of the server: the trace is
  unchanged, whatever the checks say. When the four checks pass, the run returns \<^verbatim>\<open>True\<close>
  and adds to the log exactly one would-upload line per resolved mapping, in the order of
  the resolved list, each with the local path and the effective remote path.
\<close>

theorem dry_run_logs_only:
  fixes w :: world and a :: app and task :: pydict
  defines "r \<equiv> run_upload_for_task w task True a"
  shows
    "a_trace (snd r) = a_trace a
     \<and> (task_fields task = Inr (pn, preset, mode, sel)
        \<and> find_profile (a_profiles a) pn = Some p
        \<and> fs_exists w (a_trace a) (a_presets_dir a @ [preset])
        \<and> use_mappings mode sel (a_mappings a) \<noteq> []
        \<and> (\<forall>m\<in>set (use_mappings mode sel (a_mappings a)).
              fs_exists w (a_trace a) ((a_presets_dir a @ [preset]) @ [m_local_relpath m]))
        \<longrightarrow> r = (Inr True,
                 grow a (map (\<lambda>m. (INFO, DryWouldUpload ((a_presets_dir a @ [preset]) @ [m_local_relpath m])
                                        (effective_remote (p_root p) (m_remote_path m))))
                             (use_mappings mode sel (a_mappings a))) []))"
proof (intro conjI impI)
  show "a_trace (snd r) = a_trace a"
    unfolding r_def by (rule run_upload_dry_trace)
next
  let ?pd = "a_presets_dir a @ [preset]"
  let ?use = "use_mappings mode sel (a_mappings a)"
  assume h: "task_fields task = Inr (pn, preset, mode, sel)
        \<and> find_profile (a_profiles a) pn = Some p
        \<and> fs_exists w (a_trace a) ?pd
        \<and> ?use \<noteq> []
        \<and> (\<forall>m\<in>set ?use. fs_exists w (a_trace a) (?pd @ [m_local_relpath m]))"
  then have f: "task_fields task = Inr (pn, preset, mode, sel)" by blast
  have m: "missing_files w a ?pd ?use = []"
    using h missing_files_Nil [of w a ?pd ?use] by blast
  note c = run_upload_cases [OF f, of w True a]
  show "r = (Inr True,
                 grow a (map (\<lambda>m. (INFO, DryWouldUpload (?pd @ [m_local_relpath m])
                                        (effective_remote (p_root p) (m_remote_path m)))) ?use) [])"
    unfolding r_def using c h m by (simp add: run_transfer_dry)
qed

text \<open>The sample task as a dry run: two would-upload lines, in mapping order, and an empty
  trace.\<close>

theorem dry_run_logs_only_witness:
  "run_upload_for_task ex_world ex_task_dry True (ex_app [])
     = (Inr True,
        grow (ex_app [])
          [(INFO, DryWouldUpload [''presets'', ''raid'', ''loot.xml''] ''/dayzstandalone/configs/loot.xml''),
           (INFO, DryWouldUpload [''presets'', ''raid'', ''messages.xml''] ''/dayzstandalone/configs/messages.xml'')]
          [])
   \<and> a_trace (snd (run_upload_for_task ex_world ex_task_dry True (ex_app []))) = []"
proof -
  let ?a = "ex_app []"
  let ?use = "use_mappings ''enabled'' [] (a_mappings ?a)"
  let ?pd = "a_presets_dir ?a @ [''raid'']"
  have h: "task_fields ex_task_dry = Inr (''srv'', ''raid'', ''enabled'', [])
        \<and> find_profile (a_profiles ?a) ''srv'' = Some ex_profile
        \<and> fs_exists ex_world (a_trace ?a) ?pd
        \<and> ?use \<noteq> []
        \<and> (\<forall>m\<in>set ?use. fs_exists ex_world (a_trace ?a) (?pd @ [m_local_relpath m]))"
    by code_simp
  have e: "map (\<lambda>m. (INFO, DryWouldUpload (?pd @ [m_local_relpath m])
                         (effective_remote (p_root ex_profile) (m_remote_path m)))) ?use
         = [(INFO, DryWouldUpload [''presets'', ''raid'', ''loot.xml''] ''/dayzstandalone/configs/loot.xml''),
            (INFO, DryWouldUpload [''presets'', ''raid'', ''messages.xml''] ''/dayzstandalone/configs/messages.xml'')]"
    by code_simp
  have t: "a_trace ?a = []" by code_simp
  note th = dry_run_logs_only [where a = ?a and w = ex_world and task = ex_task_dry and p = ex_profile
      and pn = "''srv''" and preset = "''raid''" and mode = "''enabled''" and sel = "[]"]
  have r1: "run_upload_for_task ex_world ex_task_dry True ?a
     = (Inr True,
        grow ?a
          [(INFO, DryWouldUpload [''presets'', ''raid'', ''loot.xml''] ''/dayzstandalone/configs/loot.xml''),
           (INFO, DryWouldUpload [''presets'', ''raid'', ''messages.xml''] ''/dayzstandalone/configs/messages.xml'')]
          [])"
    using th [THEN conjunct2, THEN mp, OF h] by (simp only: e)
  have r2: "a_trace (snd (run_upload_for_task ex_world ex_task_dry True ?a)) = []"
    using th [THEN conjunct1] by (simp only: t)
  from r1 r2 show ?thesis by (intro conjI)
qed

text \<open>
  Claim C7. In a run that is not a dry run and whose checks pass, with a server that accepts
  the connection and the uploads, the outcome of the backup downloads does not matter: the
  run returns \<^verbatim>\<open>True\<close>, every resolved mapping is uploaded, in order, a backup is attempted
  for every mapping that asks for one, and every failed backup leaves a warning in the log.
\<close>

theorem backup_failure_not_fatal:
  fixes w :: world and a :: app and task :: pydict
  assumes fields: "task_fields task = Inr (pn, preset, mode, sel)"
    and prof: "find_profile (a_profiles a) pn = Some p"
  defines "pd \<equiv> a_presets_dir a @ [preset]"
    and "use \<equiv> use_mappings mode sel (a_mappings a)"
  assumes preset: "fs_exists w (a_trace a) pd"
    and nonempty: "use \<noteq> []"
    and files: "\<forall>m\<in>set use. fs_exists w (a_trace a) (pd @ [m_local_relpath m])"
    and conn: "ftp_connect w (a_trace a) p (a_timeout a) = None"
    and up: "\<And>h l r. ftp_upload w h l r = None"
  shows "\<exists>ls evs. run_upload_for_task w task False a = (Inr True, grow a ls evs)
      \<and> filter is_upload evs
          = map (\<lambda>m. EvUpload (pd @ [m_local_relpath m]) (effective_remote (p_root p) (m_remote_path m)) None) use
      \<and> (\<forall>rf bp. EvDownload rf bp False \<in> set evs \<longrightarrow> (WARN, BackupSkipped rf) \<in> set ls)
      \<and> (\<forall>m\<in>set use. m_backup_before_overwrite m \<longrightarrow>
            (\<exists>bp ok. EvDownload (effective_remote (p_root p) (m_remote_path m)) bp ok \<in> set evs))"
proof -
  let ?rt = "task_root (p_root p)"
  let ?a1 = "grow a [] [EvConnect p None]"
  have m: "missing_files w a pd use = []"
    using files missing_files_Nil [of w a pd use] by blast
  have c: "run_upload_for_task w task False a
      = (Inr (fst (run_transfer w p preset pd use False a)), snd (run_transfer w p preset pd use False a))"
    using run_upload_cases [OF fields, of w False a, folded pd_def use_def] prof preset nonempty m
    by simp
  obtain ls evs where l: "upload_loop w p preset pd ?rt use ?a1 = (None, grow ?a1 ls evs)"
    and lu: "filter is_upload evs
          = map (\<lambda>m. EvUpload (pd @ [m_local_relpath m]) (remote_full ?rt (m_remote_path m)) None) use"
    and lw: "\<forall>rf bp. EvDownload rf bp False \<in> set evs \<longrightarrow> (WARN, BackupSkipped rf) \<in> set ls"
    and lb: "\<forall>m\<in>set use. m_backup_before_overwrite m \<longrightarrow>
            (\<exists>bp ok. EvDownload (remote_full ?rt (m_remote_path m)) bp ok \<in> set evs)"
    using upload_loop_ok [of w p preset pd ?rt use ?a1, OF up] by blast
  let ?evs = "EvConnect p None # evs @ [EvClose]"
  have t: "run_transfer w p preset pd use False a = (True, grow a ls ?evs)"
    using conn l by (simp add: run_transfer_def add_event_grow grow_grow)
  have r1: "run_upload_for_task w task False a = (Inr True, grow a ls ?evs)"
    using c t by simp
  have r2: "filter is_upload ?evs
          = map (\<lambda>m. EvUpload (pd @ [m_local_relpath m]) (effective_remote (p_root p) (m_remote_path m)) None) use"
    using lu by (simp add: effective_remote_def)
  have r3: "\<forall>rf bp. EvDownload rf bp False \<in> set ?evs \<longrightarrow> (WARN, BackupSkipped rf) \<in> set ls"
    using lw by simp
  have r4: "\<forall>m\<in>set use. m_backup_before_overwrite m \<longrightarrow>
            (\<exists>bp ok. EvDownload (effective_remote (p_root p) (m_remote_path m)) bp ok \<in> set ?evs)"
  proof (intro ballI impI)
    fix m assume "m \<in> set use" and "m_backup_before_overwrite m"
    then obtain bp ok where "EvDownload (remote_full ?rt (m_remote_path m)) bp ok \<in> set evs"
      using lb by blast
    then have "EvDownload (effective_remote (p_root p) (m_remote_path m)) bp ok \<in> set ?evs"
      by (simp add: effective_remote_def)
    then show "\<exists>bp ok. EvDownload (effective_remote (p_root p) (m_remote_path m)) bp ok \<in> set ?evs"
      by blast
  qed
  show ?thesis using r1 r2 r3 r4 by blast
qed


text \<open>The sample task on a server where no remote file exists yet: the backup of the first
  mapping fails and is logged as a warning, both files are uploaded, the run returns \<^verbatim>\<open>True\<close>.\<close>

theorem backup_failure_not_fatal_witness:
  "fst (run_upload_for_task ex_world ex_task False (ex_app [])) = Inr True
   \<and> filter is_upload (a_trace (snd (run_upload_for_task ex_world ex_task False (ex_app []))))
     = [EvUpload [''presets'', ''raid'', ''loot.xml''] ''/dayzstandalone/configs/loot.xml'' None,
        EvUpload [''presets'', ''raid'', ''messages.xml''] ''/dayzstandalone/configs/messages.xml'' None]
   \<and> (WARN, BackupSkipped ''/dayzstandalone/configs/loot.xml'')
       \<in> set (a_log (snd (run_upload_for_task ex_world ex_task False (ex_app []))))"
proof -
  let ?a = "ex_app []"
  let ?use = "use_mappings ''enabled'' [] (a_mappings ?a)"
  let ?pd = "a_presets_dir ?a @ [''raid'']"
  let ?r = "run_upload_for_task ex_world ex_task False ?a"
  have f: "task_fields ex_task = Inr (''srv'', ''raid'', ''enabled'', [])" by code_simp
  have p: "find_profile (a_profiles ?a) ''srv'' = Some ex_profile" by code_simp
  have d: "fs_exists ex_world (a_trace ?a) ?pd" by code_simp
  have n: "?use \<noteq> []" by code_simp
  have fl: "\<forall>m\<in>set ?use. fs_exists ex_world (a_trace ?a) (?pd @ [m_local_relpath m])" by code_simp
  have c: "ftp_connect ex_world (a_trace ?a) ex_profile (a_timeout ?a) = None" by code_simp
  have u: "\<And>h l r. ftp_upload ex_world h l r = None" by (simp add: ex_world_def)
  have e: "map (\<lambda>m. EvUpload (?pd @ [m_local_relpath m]) (effective_remote (p_root ex_profile) (m_remote_path m)) None) ?use
     = [EvUpload [''presets'', ''raid'', ''loot.xml''] ''/dayzstandalone/configs/loot.xml'' None,
        EvUpload [''presets'', ''raid'', ''messages.xml''] ''/dayzstandalone/configs/messages.xml'' None]"
    by code_simp
  have t: "a_trace ?a = []" by code_simp
  obtain ls evs where r: "?r = (Inr True, grow ?a ls evs)"
    and ru: "filter is_upload evs
      = map (\<lambda>m. EvUpload (?pd @ [m_local_relpath m]) (effective_remote (p_root ex_profile) (m_remote_path m)) None) ?use"
    using backup_failure_not_fatal [OF f p d n fl c u] by blast
  have r1: "fst ?r = Inr True" using r by simp
  have "a_trace (snd ?r) = evs" using r t by (simp add: grow_fields)
  then have r2: "filter is_upload (a_trace (snd ?r))
     = [EvUpload [''presets'', ''raid'', ''loot.xml''] ''/dayzstandalone/configs/loot.xml'' None,
        EvUpload [''presets'', ''raid'', ''messages.xml''] ''/dayzstandalone/configs/messages.xml'' None]"
    using ru e by simp
  have r3: "(WARN, BackupSkipped ''/dayzstandalone/configs/loot.xml'') \<in> set (a_log (snd ?r))"
    by code_simp
  from r1 r2 r3 show ?thesis by (intro conjI)
qed

section \<open>Properties of the scheduler\<close>

lemma map_of_dict_set: "map_of (dict_set d k v) k' = (if k' = k then Some v else map_of d k')"
  by (induction d k v rule: dict_set.induct) auto


lemma stored_tasks_grow: "stored_tasks (grow a ls evs) = stored_tasks a"
  by (simp add: stored_tasks_def grow_fields)

lemma store_task_grow: "store_task i t (grow a ls evs) = grow (store_task i t a) ls evs"
  by (simp add: store_task_def grow_def split: option.split json.split)

lemma stored_tasks_store_task: "stored_tasks (store_task i t a) = (stored_tasks a)[i := JObj t]"
  by (simp add: stored_tasks_def store_task_def map_of_dict_set split: option.split json.split)

lemma store_task_fields:
  "a_log (store_task i t a) = a_log a"
  "a_trace (store_task i t a) = a_trace a"
  by (simp_all add: store_task_def split: option.split json.split)

lemma new_events_grow: "new_events a (grow a ls evs) = evs"
  by (simp add: new_events_def grow_fields)

lemma new_log_grow: "new_log a (grow a ls evs) = ls"
  by (simp add: new_log_def grow_fields)

lemma check_one_not_due: "\<not> due now tj \<Longrightarrow> snd (check_one w now i tj a) = a"
  by (auto simp: due_def check_one_def split: json.split sum.split bool.split)

lemma check_one_due: "due now (JObj t) \<Longrightarrow> check_one w now i (JObj t) a = run_due_task w now i t a"
  by (auto simp: due_def check_one_def split: sum.split)

lemma due_JObj: "due now tj \<Longrightarrow> \<exists>t. tj = JObj t"
  by (cases tj) (simp_all add: due_def)


lemma network_only:
  assumes "list_all is_network evs"
  shows "EvRun j \<notin> set evs" and "EvRunResult j ok \<notin> set evs" and "EvSave d r \<notin> set evs"
  using assms by (auto simp: list_all_iff)

lemma run_due_task_unfold:
  assumes "run_upload_for_task w t (truthy (dict_get t ''dry_run'' (JBool False)))
             (grow a [(INFO, TaskTrigger (dict_get t ''name'' (JStr ''Task'')) (today_of now) (hhmm now))] [EvRun i])
           = (res, a2)"
  shows "run_due_task w now i t a =
     (case res of
        Inl e \<Rightarrow> (Some e, a2)
      | Inr ok \<Rightarrow>
          if ok then
            (case save_tasks w (store_task i (dict_set t ''last_run'' (JStr (stamp_minute now)))
                                  (grow a2 [] [EvRunResult i True])) of
               (Some e, a3) \<Rightarrow> (Some e, a3)
             | (None, a3) \<Rightarrow> (None, grow a3 [(INFO, TaskCompleted (dict_get t ''name'' (JStr ''Task'')))] []))
          else (None, grow a2 [(WARN, TaskFailed (dict_get t ''name'' (JStr ''Task'')))] [EvRunResult i False]))"
  using assms
  by (simp add: run_due_task_def Let_def add_log_grow add_event_grow grow_grow
           split: sum.split prod.split option.split)

lemma run_due_task_raise:
  assumes "fst (run_upload_for_task w t (truthy (dict_get t ''dry_run'' (JBool False)))
             (grow a [(INFO, TaskTrigger (dict_get t ''name'' (JStr ''Task'')) (today_of now) (hhmm now))] [EvRun i]))
           = Inl e"
  shows "run_due_task w now i t a =
         (Some e, snd (run_upload_for_task w t (truthy (dict_get t ''dry_run'' (JBool False)))
             (grow a [(INFO, TaskTrigger (dict_get t ''name'' (JStr ''Task'')) (today_of now) (hhmm now))] [EvRun i])))"
proof -
  obtain res a2 where rr: "run_upload_for_task w t (truthy (dict_get t ''dry_run'' (JBool False)))
             (grow a [(INFO, TaskTrigger (dict_get t ''name'' (JStr ''Task'')) (today_of now) (hhmm now))] [EvRun i])
           = (res, a2)"
    by (cases "run_upload_for_task w t (truthy (dict_get t ''dry_run'' (JBool False)))
             (grow a [(INFO, TaskTrigger (dict_get t ''name'' (JStr ''Task'')) (today_of now) (hhmm now))] [EvRun i])") blast
  have "res = Inl e" using assms rr by simp
  then show ?thesis using run_due_task_unfold [OF rr] rr by simp
qed

lemma run_due_task_fail:
  assumes "fst (run_upload_for_task w t (truthy (dict_get t ''dry_run'' (JBool False)))
             (grow a [(INFO, TaskTrigger (dict_get t ''name'' (JStr ''Task'')) (today_of now) (hhmm now))] [EvRun i]))
           = Inr False"
  shows "run_due_task w now i t a =
         (None, grow (snd (run_upload_for_task w t (truthy (dict_get t ''dry_run'' (JBool False)))
             (grow a [(INFO, TaskTrigger (dict_get t ''name'' (JStr ''Task'')) (today_of now) (hhmm now))] [EvRun i])))
            [(WARN, TaskFailed (dict_get t ''name'' (JStr ''Task'')))] [EvRunResult i False])"
proof -
  obtain res a2 where rr: "run_upload_for_task w t (truthy (dict_get t ''dry_run'' (JBool False)))
             (grow a [(INFO, TaskTrigger (dict_get t ''name'' (JStr ''Task'')) (today_of now) (hhmm now))] [EvRun i])
           = (res, a2)"
    by (cases "run_upload_for_task w t (truthy (dict_get t ''dry_run'' (JBool False)))
             (grow a [(INFO, TaskTrigger (dict_get t ''name'' (JStr ''Task'')) (today_of now) (hhmm now))] [EvRun i])") blast
  have "res = Inr False" using assms rr by simp
  then show ?thesis using run_due_task_unfold [OF rr] rr by simp
qed

lemma run_due_task_ok:
  assumes "fst (run_upload_for_task w t (truthy (dict_get t ''dry_run'' (JBool False)))
             (grow a [(INFO, TaskTrigger (dict_get t ''name'' (JStr ''Task'')) (today_of now) (hhmm now))] [EvRun i]))
           = Inr True"
    and "a3 = store_task i (dict_set t ''last_run'' (JStr (stamp_minute now)))
            (grow (snd (run_upload_for_task w t (truthy (dict_get t ''dry_run'' (JBool False)))
               (grow a [(INFO, TaskTrigger (dict_get t ''name'' (JStr ''Task'')) (today_of now) (hhmm now))] [EvRun i])))
             [] [EvRunResult i True])"
    and "r = save_json w (a_trace a3) (a_tasks_obj a3)"
  shows "run_due_task w now i t a =
         (r, grow a3 (case r of None \<Rightarrow> [(INFO, TaskCompleted (dict_get t ''name'' (JStr ''Task'')))] | Some e \<Rightarrow> [])
                    [EvSave (a_tasks_obj a3) r])"
proof -
  obtain res a2 where rr: "run_upload_for_task w t (truthy (dict_get t ''dry_run'' (JBool False)))
             (grow a [(INFO, TaskTrigger (dict_get t ''name'' (JStr ''Task'')) (today_of now) (hhmm now))] [EvRun i])
           = (res, a2)"
    by (cases "run_upload_for_task w t (truthy (dict_get t ''dry_run'' (JBool False)))
             (grow a [(INFO, TaskTrigger (dict_get t ''name'' (JStr ''Task'')) (today_of now) (hhmm now))] [EvRun i])") blast
  have res: "res = Inr True" using assms(1) rr by simp
  have a3: "a3 = store_task i (dict_set t ''last_run'' (JStr (stamp_minute now))) (grow a2 [] [EvRunResult i True])"
    using assms(2) rr by simp
  show ?thesis
  proof (cases r)
    case None
    then show ?thesis
      using run_due_task_unfold [OF rr] res a3 assms(3)
      by (simp add: save_tasks_def Let_def add_event_grow grow_grow)
  next
    case (Some e)
    then show ?thesis
      using run_due_task_unfold [OF rr] res a3 assms(3)
      by (simp add: save_tasks_def Let_def add_event_grow grow_grow grow_Nil)
  qed
qed

text \<open>What one call of \<open>run_due_task\<close> on the task at position \<open>i\<close> leaves behind.\<close>

lemma run_due_task_effect:
  "\<exists>ls evs. snd (run_due_task w now i t a)
       = grow (if EvRunResult i True \<in> set evs
               then store_task i (dict_set t ''last_run'' (JStr (stamp_minute now))) a else a) ls evs
     \<and> (\<forall>j. EvRun j \<in> set evs \<longrightarrow> j = i)
     \<and> (\<forall>j ok. EvRunResult j ok \<in> set evs \<longrightarrow> j = i)"
proof -
  let ?name = "dict_get t ''name'' (JStr ''Task'')"
  let ?trig = "(INFO, TaskTrigger ?name (today_of now) (hhmm now))"
  let ?a1 = "grow a [?trig] [EvRun i]"
  let ?rr = "run_upload_for_task w t (truthy (dict_get t ''dry_run'' (JBool False))) ?a1"
  let ?t' = "dict_set t ''last_run'' (JStr (stamp_minute now))"
  obtain ls0 evs0 where s: "snd ?rr = grow ?a1 ls0 evs0" and n: "list_all is_network evs0"
    using run_upload_frame by blast
  have s': "snd ?rr = grow a (?trig # ls0) (EvRun i # evs0)"
    using s by (simp add: grow_grow)
  note no = network_only [OF n]
  show ?thesis
  proof (cases "fst ?rr")
    case (Inl e)
    let ?evs = "EvRun i # evs0"
    have x: "snd (run_due_task w now i t a) = grow a (?trig # ls0) ?evs"
      using run_due_task_raise [OF Inl] s' by simp
    have y: "EvRunResult i True \<notin> set ?evs" using no by simp
    have z: "snd (run_due_task w now i t a)
       = grow (if EvRunResult i True \<in> set ?evs then store_task i ?t' a else a) (?trig # ls0) ?evs
     \<and> (\<forall>j. EvRun j \<in> set ?evs \<longrightarrow> j = i)
     \<and> (\<forall>j ok. EvRunResult j ok \<in> set ?evs \<longrightarrow> j = i)"
      using x y no by simp
    show ?thesis
      by (rule exI [of _ "?trig # ls0"], rule exI [of _ ?evs], rule z)
  next
    case (Inr ok)
    show ?thesis
    proof (cases ok)
      case False
      let ?evs = "EvRun i # evs0 @ [EvRunResult i False]"
      have "fst ?rr = Inr False" using Inr False by simp
      then have x: "snd (run_due_task w now i t a)
          = grow a (?trig # ls0 @ [(WARN, TaskFailed ?name)]) ?evs"
        using run_due_task_fail [of w t a now i] s' by (simp add: grow_grow)
      have y: "EvRunResult i True \<notin> set ?evs" using no by simp
      have z: "snd (run_due_task w now i t a)
         = grow (if EvRunResult i True \<in> set ?evs then store_task i ?t' a else a)
             (?trig # ls0 @ [(WARN, TaskFailed ?name)]) ?evs
       \<and> (\<forall>j. EvRun j \<in> set ?evs \<longrightarrow> j = i)
       \<and> (\<forall>j ok. EvRunResult j ok \<in> set ?evs \<longrightarrow> j = i)"
        using x y no by simp
      show ?thesis
        by (rule exI [of _ "?trig # ls0 @ [(WARN, TaskFailed ?name)]"], rule exI [of _ ?evs], rule z)
    next
      case True
      define a3 where "a3 = store_task i ?t' (grow (snd ?rr) [] [EvRunResult i True])"
      define r where "r = save_json w (a_trace a3) (a_tasks_obj a3)"
      define lc where "lc = (case r of None \<Rightarrow> [(INFO, TaskCompleted ?name)] | Some e \<Rightarrow> [])"
      let ?evs = "EvRun i # evs0 @ [EvRunResult i True, EvSave (a_tasks_obj a3) r]"
      have "fst ?rr = Inr True" using Inr True by simp
      then have "run_due_task w now i t a = (r, grow a3 lc [EvSave (a_tasks_obj a3) r])"
        unfolding lc_def by (rule run_due_task_ok [OF _ a3_def r_def])
      moreover have "a3 = grow (store_task i ?t' a) (?trig # ls0) (EvRun i # evs0 @ [EvRunResult i True])"
        by (simp add: a3_def s' store_task_grow grow_grow)
      ultimately have x: "snd (run_due_task w now i t a) = grow (store_task i ?t' a) (?trig # ls0 @ lc) ?evs"
        by (simp add: grow_grow)
      have z: "snd (run_due_task w now i t a)
         = grow (if EvRunResult i True \<in> set ?evs then store_task i ?t' a else a) (?trig # ls0 @ lc) ?evs
       \<and> (\<forall>j. EvRun j \<in> set ?evs \<longrightarrow> j = i)
       \<and> (\<forall>j ok. EvRunResult j ok \<in> set ?evs \<longrightarrow> j = i)"
        using x no by simp
      show ?thesis
        by (rule exI [of _ "?trig # ls0 @ lc"], rule exI [of _ ?evs], rule z)
    qed
  qed
qed

lemma steps_toD:
  assumes "steps_to now xs a a' evs"
  shows "a_trace a' = a_trace a @ evs"
    and "EvRun j \<in> set evs \<Longrightarrow> \<exists>tj. (j, tj) \<in> set xs \<and> due now tj"
    and "EvRunResult j ok \<in> set evs \<Longrightarrow> \<exists>tj. (j, tj) \<in> set xs \<and> due now tj"
    and "length (stored_tasks a') = length (stored_tasks a)"
    and "j < length (stored_tasks a) \<Longrightarrow> EvRunResult j True \<in> set evs \<Longrightarrow>
           \<exists>t. (j, JObj t) \<in> set xs
               \<and> stored_tasks a' ! j = JObj (dict_set t ''last_run'' (JStr (stamp_minute now)))"
    and "j < length (stored_tasks a) \<Longrightarrow> EvRunResult j True \<notin> set evs \<Longrightarrow>
           stored_tasks a' ! j = stored_tasks a ! j"
proof -
  note d = assms [unfolded steps_to_def]
  show "a_trace a' = a_trace a @ evs" using d by (rule conjunct1)
  show "EvRun j \<in> set evs \<Longrightarrow> \<exists>tj. (j, tj) \<in> set xs \<and> due now tj"
    using d [THEN conjunct2, THEN conjunct1] by blast
  show "EvRunResult j ok \<in> set evs \<Longrightarrow> \<exists>tj. (j, tj) \<in> set xs \<and> due now tj"
    using d [THEN conjunct2, THEN conjunct2, THEN conjunct1] by blast
  show "length (stored_tasks a') = length (stored_tasks a)"
    using d [THEN conjunct2, THEN conjunct2, THEN conjunct2, THEN conjunct1] .
  show "j < length (stored_tasks a) \<Longrightarrow> EvRunResult j True \<in> set evs \<Longrightarrow>
           \<exists>t. (j, JObj t) \<in> set xs
               \<and> stored_tasks a' ! j = JObj (dict_set t ''last_run'' (JStr (stamp_minute now)))"
    using d [THEN conjunct2, THEN conjunct2, THEN conjunct2, THEN conjunct2] by blast
  show "j < length (stored_tasks a) \<Longrightarrow> EvRunResult j True \<notin> set evs \<Longrightarrow>
           stored_tasks a' ! j = stored_tasks a ! j"
    using d [THEN conjunct2, THEN conjunct2, THEN conjunct2, THEN conjunct2] by blast
qed

lemma steps_toI:
  assumes "a_trace a' = a_trace a @ evs"
    and "\<And>j. EvRun j \<in> set evs \<Longrightarrow> \<exists>tj. (j, tj) \<in> set xs \<and> due now tj"
    and "\<And>j ok. EvRunResult j ok \<in> set evs \<Longrightarrow> \<exists>tj. (j, tj) \<in> set xs \<and> due now tj"
    and "length (stored_tasks a') = length (stored_tasks a)"
    and "\<And>j. j < length (stored_tasks a) \<Longrightarrow> EvRunResult j True \<in> set evs \<Longrightarrow>
           \<exists>t. (j, JObj t) \<in> set xs
               \<and> stored_tasks a' ! j = JObj (dict_set t ''last_run'' (JStr (stamp_minute now)))"
    and "\<And>j. j < length (stored_tasks a) \<Longrightarrow> EvRunResult j True \<notin> set evs \<Longrightarrow>
           stored_tasks a' ! j = stored_tasks a ! j"
  shows "steps_to now xs a a' evs"
  unfolding steps_to_def
proof (intro conjI allI impI)
  show "a_trace a' = a_trace a @ evs" by (rule assms(1))
  show "\<exists>tj. (j, tj) \<in> set xs \<and> due now tj" if "EvRun j \<in> set evs" for j
    using that by (rule assms(2))
  show "\<exists>tj. (j, tj) \<in> set xs \<and> due now tj" if "EvRunResult j ok \<in> set evs" for j ok
    using that by (rule assms(3))
  show "length (stored_tasks a') = length (stored_tasks a)" by (rule assms(4))
  show "\<exists>t. (j, JObj t) \<in> set xs
               \<and> stored_tasks a' ! j = JObj (dict_set t ''last_run'' (JStr (stamp_minute now)))"
    if "j < length (stored_tasks a)" "EvRunResult j True \<in> set evs" for j
    using that by (rule assms(5))
  show "stored_tasks a' ! j = stored_tasks a ! j"
    if "j < length (stored_tasks a)" "EvRunResult j True \<notin> set evs" for j
    using that by (rule assms(6))
qed


lemma steps_refl: "steps_to now xs a a []"
  by (rule steps_toI) simp_all

lemma steps_grow:
  assumes "steps_to now xs a a' evs"
  shows "steps_to now xs a (grow a' ls []) evs"
proof (rule steps_toI)
  note d = steps_toD [OF assms]
  show "a_trace (grow a' ls []) = a_trace a @ evs" using d(1) by (simp add: grow_fields)
  show "\<exists>tj. (j, tj) \<in> set xs \<and> due now tj" if "EvRun j \<in> set evs" for j
    using that by (rule d(2))
  show "\<exists>tj. (j, tj) \<in> set xs \<and> due now tj" if "EvRunResult j ok \<in> set evs" for j ok
    using that by (rule d(3))
  show "length (stored_tasks (grow a' ls [])) = length (stored_tasks a)"
    using d(4) by (simp add: stored_tasks_grow)
  show "\<exists>t. (j, JObj t) \<in> set xs
           \<and> stored_tasks (grow a' ls []) ! j = JObj (dict_set t ''last_run'' (JStr (stamp_minute now)))"
    if "j < length (stored_tasks a)" "EvRunResult j True \<in> set evs" for j
    using d(5) [OF that] by (simp add: stored_tasks_grow)
  show "stored_tasks (grow a' ls []) ! j = stored_tasks a ! j"
    if "j < length (stored_tasks a)" "EvRunResult j True \<notin> set evs" for j
    using d(6) [OF that] by (simp add: stored_tasks_grow)
qed

lemma steps_mono:
  assumes "steps_to now xs a a' evs" and sub: "set xs \<subseteq> set ys"
  shows "steps_to now ys a a' evs"
proof (rule steps_toI)
  note d = steps_toD [OF assms(1)]
  show "a_trace a' = a_trace a @ evs" by (rule d(1))
  show "\<exists>tj. (j, tj) \<in> set ys \<and> due now tj" if "EvRun j \<in> set evs" for j
    using d(2) [OF that] sub by blast
  show "\<exists>tj. (j, tj) \<in> set ys \<and> due now tj" if "EvRunResult j ok \<in> set evs" for j ok
    using d(3) [OF that] sub by blast
  show "length (stored_tasks a') = length (stored_tasks a)" by (rule d(4))
  show "\<exists>t. (j, JObj t) \<in> set ys
           \<and> stored_tasks a' ! j = JObj (dict_set t ''last_run'' (JStr (stamp_minute now)))"
    if "j < length (stored_tasks a)" "EvRunResult j True \<in> set evs" for j
    using d(5) [OF that] sub by blast
  show "stored_tasks a' ! j = stored_tasks a ! j"
    if "j < length (stored_tasks a)" "EvRunResult j True \<notin> set evs" for j
    using d(6) [OF that] .
qed

lemma steps_trans:
  assumes s1: "steps_to now xs a a1 e1"
    and s2: "steps_to now ys a1 a' e2"
    and dj: "fst ` set xs \<inter> fst ` set ys = {}"
  shows "steps_to now (xs @ ys) a a' (e1 @ e2)"
proof (rule steps_toI)
  note d1 = steps_toD [OF s1]
  note d2 = steps_toD [OF s2]
  show "a_trace a' = a_trace a @ e1 @ e2" using d1(1) d2(1) by simp
  show "\<exists>tj. (j, tj) \<in> set (xs @ ys) \<and> due now tj" if "EvRun j \<in> set (e1 @ e2)" for j
  proof (cases "EvRun j \<in> set e1")
    case True
    then show ?thesis using d1(2) by fastforce
  next
    case False
    then have "EvRun j \<in> set e2" using that by simp
    then show ?thesis using d2(2) by fastforce
  qed
  show "\<exists>tj. (j, tj) \<in> set (xs @ ys) \<and> due now tj" if "EvRunResult j ok \<in> set (e1 @ e2)" for j ok
  proof (cases "EvRunResult j ok \<in> set e1")
    case True
    then show ?thesis using d1(3) by fastforce
  next
    case False
    then have "EvRunResult j ok \<in> set e2" using that by simp
    then show ?thesis using d2(3) by fastforce
  qed
  show l: "length (stored_tasks a') = length (stored_tasks a)" using d1(4) d2(4) by simp
  show "\<exists>t. (j, JObj t) \<in> set (xs @ ys)
           \<and> stored_tasks a' ! j = JObj (dict_set t ''last_run'' (JStr (stamp_minute now)))"
    if j: "j < length (stored_tasks a)" and r: "EvRunResult j True \<in> set (e1 @ e2)" for j
  proof (cases "EvRunResult j True \<in> set e1")
    case True
    obtain t where t: "(j, JObj t) \<in> set xs"
      and v: "stored_tasks a1 ! j = JObj (dict_set t ''last_run'' (JStr (stamp_minute now)))"
      using d1(5) [OF j True] by blast
    have "j \<in> fst ` set xs" using t by force
    then have "j \<notin> fst ` set ys" using dj by blast
    then have "EvRunResult j True \<notin> set e2" using d2(3) [of j True] by force
    moreover have "j < length (stored_tasks a1)" using j d1(4) by simp
    ultimately have "stored_tasks a' ! j = stored_tasks a1 ! j" using d2(6) by blast
    then show ?thesis using t v by auto
  next
    case False
    then have r2: "EvRunResult j True \<in> set e2" using r by simp
    have j1: "j < length (stored_tasks a1)" using j d1(4) by simp
    obtain t where "(j, JObj t) \<in> set ys"
      and "stored_tasks a' ! j = JObj (dict_set t ''last_run'' (JStr (stamp_minute now)))"
      using d2(5) [OF j1 r2] by blast
    then show ?thesis by auto
  qed
  show "stored_tasks a' ! j = stored_tasks a ! j"
    if j: "j < length (stored_tasks a)" and r: "EvRunResult j True \<notin> set (e1 @ e2)" for j
  proof -
    have j1: "j < length (stored_tasks a1)" using j d1(4) by simp
    have "stored_tasks a1 ! j = stored_tasks a ! j" using d1(6) [OF j] r by simp
    moreover have "stored_tasks a' ! j = stored_tasks a1 ! j" using d2(6) [OF j1] r by simp
    ultimately show ?thesis by simp
  qed
qed


lemma steps_check_one: "\<exists>evs. steps_to now [(i, tj)] a (snd (check_one w now i tj a)) evs"
proof (cases "due now tj")
  case False
  then have "snd (check_one w now i tj a) = a" by (rule check_one_not_due)
  then have f: "steps_to now [(i, tj)] a (snd (check_one w now i tj a)) []"
    using steps_refl [of now "[(i, tj)]" a] by simp
  show ?thesis by (rule exI [of _ "[]"], rule f)
next
  case True
  then obtain t where tj: "tj = JObj t" using due_JObj by blast
  let ?t' = "dict_set t ''last_run'' (JStr (stamp_minute now))"
  obtain ls evs where
    s: "snd (run_due_task w now i t a)
       = grow (if EvRunResult i True \<in> set evs then store_task i ?t' a else a) ls evs"
    and r: "\<forall>j. EvRun j \<in> set evs \<longrightarrow> j = i"
    and rr: "\<forall>j ok. EvRunResult j ok \<in> set evs \<longrightarrow> j = i"
    using run_due_task_effect [of w now i t a] by blast
  define X where "X = (if EvRunResult i True \<in> set evs then store_task i ?t' a else a)"
  have c: "snd (check_one w now i tj a) = grow X ls evs"
    using check_one_due [of now t w i a] True tj s by (simp add: X_def)
  have st: "stored_tasks (grow X ls evs)
      = (if EvRunResult i True \<in> set evs then (stored_tasks a)[i := JObj ?t'] else stored_tasks a)"
    by (simp add: X_def stored_tasks_grow stored_tasks_store_task)
  have tr: "a_trace X = a_trace a"
    by (simp add: X_def store_task_fields)
  have f: "steps_to now [(i, tj)] a (grow X ls evs) evs"
  proof (rule steps_toI)
    show "a_trace (grow X ls evs) = a_trace a @ evs"
      by (simp add: grow_fields tr)
    show "\<exists>tj'. (j, tj') \<in> set [(i, tj)] \<and> due now tj'" if "EvRun j \<in> set evs" for j
      using that r True by auto
    show "\<exists>tj'. (j, tj') \<in> set [(i, tj)] \<and> due now tj'" if "EvRunResult j ok \<in> set evs" for j ok
      using that rr True by auto
    show "length (stored_tasks (grow X ls evs)) = length (stored_tasks a)"
      by (simp add: st)
    show "\<exists>t. (j, JObj t) \<in> set [(i, tj)]
           \<and> stored_tasks (grow X ls evs) ! j = JObj (dict_set t ''last_run'' (JStr (stamp_minute now)))"
      if j: "j < length (stored_tasks a)" and e: "EvRunResult j True \<in> set evs" for j
    proof -
      have ji: "j = i" using e rr by blast
      then have "stored_tasks (grow X ls evs) ! j = JObj ?t'" using e j by (simp add: st)
      then show ?thesis using ji tj by simp
    qed
    show "stored_tasks (grow X ls evs) ! j = stored_tasks a ! j"
      if j: "j < length (stored_tasks a)" and e: "EvRunResult j True \<notin> set evs" for j
    proof (cases "j = i")
      case True
      then show ?thesis using e by (simp add: st)
    next
      case False
      then show ?thesis by (simp add: st)
    qed
  qed
  have "steps_to now [(i, tj)] a (snd (check_one w now i tj a)) evs"
    using f c by simp
  then show ?thesis by (rule exI)
qed

lemma steps_check_loop:
  assumes "distinct (map fst xs)"
  shows "\<exists>evs. steps_to now xs a (snd (check_loop w now xs a)) evs"
  using assms
proof (induction xs arbitrary: a)
  case Nil
  have f: "steps_to now [] a (snd (check_loop w now [] a)) []"
    using steps_refl [of now "[]" a] by simp
  show ?case by (rule exI [of _ "[]"], rule f)
next
  case (Cons x rest)
  obtain i tj where x: "x = (i, tj)" by (cases x) blast
  obtain r a1 where co: "check_one w now i tj a = (r, a1)"
    by (cases "check_one w now i tj a") blast
  obtain e1 where s1: "steps_to now [(i, tj)] a a1 e1"
    using steps_check_one [of now i tj a w] co by auto
  have dr: "distinct (map fst rest)" using Cons.prems by simp
  have dj: "fst ` set [(i, tj)] \<inter> fst ` set rest = {}" using Cons.prems x by auto
  show ?case
  proof (cases r)
    case (Some e)
    have "check_loop w now (x # rest) a = (Some e, a1)"
      using Some co by (simp add: x)
    then have "snd (check_loop w now (x # rest) a) = a1" by simp
    moreover have "steps_to now (x # rest) a a1 e1"
      using steps_mono [OF s1] x by simp
    ultimately have f: "steps_to now (x # rest) a (snd (check_loop w now (x # rest) a)) e1"
      by simp
    show ?thesis by (rule exI [of _ e1], rule f)
  next
    case None
    have c: "check_loop w now (x # rest) a = check_loop w now rest a1"
      using None co by (simp add: x)
    obtain e2 where s2: "steps_to now rest a1 (snd (check_loop w now rest a1)) e2"
      using Cons.IH [OF dr] by blast
    have "steps_to now ([(i, tj)] @ rest) a (snd (check_loop w now rest a1)) (e1 @ e2)"
      using s1 s2 dj by (rule steps_trans)
    then have f: "steps_to now (x # rest) a (snd (check_loop w now (x # rest) a)) (e1 @ e2)"
      using c x by simp
    show ?thesis by (rule exI [of _ "e1 @ e2"], rule f)
  qed
qed

lemma iter_tasks:
  assumes "py_iter (dict_get (a_tasks_obj a) ''tasks'' (JList [])) = Inr ts"
  shows "ts = stored_tasks a \<or> (stored_tasks a = [] \<and> (\<forall>tj\<in>set ts. \<not> due now tj))"
proof (cases "map_of (a_tasks_obj a) ''tasks''")
  case None
  then show ?thesis using assms by (simp add: dict_get_def stored_tasks_def)
next
  case (Some v)
  then have i: "py_iter v = Inr ts" using assms by (simp add: dict_get_def)
  show ?thesis
  proof (cases v)
    case (JList xs)
    then show ?thesis using i Some by (simp add: stored_tasks_def)
  next
    case (JStr x)
    then have "stored_tasks a = []" using Some by (simp add: stored_tasks_def)
    moreover have "\<forall>tj\<in>set ts. \<not> due now tj" using i JStr by (auto simp: due_def)
    ultimately show ?thesis by blast
  next
    case (JObj kvs)
    then have "stored_tasks a = []" using Some by (simp add: stored_tasks_def)
    moreover have "\<forall>tj\<in>set ts. \<not> due now tj" using i JObj by (auto simp: due_def)
    ultimately show ?thesis by blast
  next
    case JNull
    then show ?thesis using i by simp
  next
    case (JBool b)
    then show ?thesis using i by simp
  next
    case (JInt n)
    then show ?thesis using i by simp
  next
    case (JFloat f)
    then show ?thesis using i by simp
  qed
qed

lemma steps_none_due:
  assumes s: "steps_to now xs a a' evs"
    and nd: "\<forall>p\<in>set xs. \<not> due now (snd p)"
    and e: "stored_tasks a = []"
  shows "steps_to now ys a a' evs"
proof (rule steps_toI)
  note d = steps_toD [OF s]
  show "a_trace a' = a_trace a @ evs" by (rule d(1))
  show "\<exists>tj. (j, tj) \<in> set ys \<and> due now tj" if "EvRun j \<in> set evs" for j
    using d(2) [OF that] nd by force
  show "\<exists>tj. (j, tj) \<in> set ys \<and> due now tj" if "EvRunResult j ok \<in> set evs" for j ok
    using d(3) [OF that] nd by force
  show "length (stored_tasks a') = length (stored_tasks a)" by (rule d(4))
  show "\<exists>t. (j, JObj t) \<in> set ys
           \<and> stored_tasks a' ! j = JObj (dict_set t ''last_run'' (JStr (stamp_minute now)))"
    if "j < length (stored_tasks a)" "EvRunResult j True \<in> set evs" for j
    using that e by simp
  show "stored_tasks a' ! j = stored_tasks a ! j"
    if "j < length (stored_tasks a)" "EvRunResult j True \<notin> set evs" for j
    using that e by simp
qed

lemma steps_check_tasks:
  "\<exists>evs. steps_to now (enumerate 0 (stored_tasks a)) a (snd (check_tasks w now a)) evs"
proof (cases "py_iter (dict_get (a_tasks_obj a) ''tasks'' (JList []))")
  case (Inl e)
  then have "snd (check_tasks w now a) = a" by (simp add: check_tasks_def)
  then have f: "steps_to now (enumerate 0 (stored_tasks a)) a (snd (check_tasks w now a)) []"
    using steps_refl [of now "enumerate 0 (stored_tasks a)" a] by simp
  show ?thesis by (rule exI [of _ "[]"], rule f)
next
  case (Inr ts)
  then have c: "check_tasks w now a = check_loop w now (enumerate 0 ts) a"
    by (simp add: check_tasks_def)
  have "distinct (map fst (enumerate 0 ts))" by simp
  then obtain evs where s: "steps_to now (enumerate 0 ts) a (snd (check_loop w now (enumerate 0 ts) a)) evs"
    using steps_check_loop by blast
  have f: "steps_to now (enumerate 0 (stored_tasks a)) a (snd (check_tasks w now a)) evs"
  proof (cases "ts = stored_tasks a")
    case True
    then show ?thesis using s c by simp
  next
    case False
    then have e: "stored_tasks a = []" and nd: "\<forall>tj\<in>set ts. \<not> due now tj"
      using iter_tasks [OF Inr, of now] by blast+
    have "\<forall>p\<in>set (enumerate 0 ts). \<not> due now (snd p)"
      using nd by (auto simp: in_set_enumerate_eq)
    then show ?thesis using steps_none_due [OF s _ e] c by simp
  qed
  show ?thesis by (rule exI [of _ evs], rule f)
qed

lemma steps_tick:
  "\<exists>evs. steps_to now (enumerate 0 (stored_tasks a)) a (fst (tick w now a)) evs"
proof (cases "a_scheduler_running a")
  case False
  then have "fst (tick w now a) = a" by (simp add: tick_def)
  then have f: "steps_to now (enumerate 0 (stored_tasks a)) a (fst (tick w now a)) []"
    using steps_refl [of now "enumerate 0 (stored_tasks a)" a] by simp
  show ?thesis by (rule exI [of _ "[]"], rule f)
next
  case True
  obtain r a1 where c: "check_tasks w now a = (r, a1)"
    by (cases "check_tasks w now a") blast
  obtain evs where s: "steps_to now (enumerate 0 (stored_tasks a)) a a1 evs"
    using steps_check_tasks [of now a w] c by auto
  have f: "steps_to now (enumerate 0 (stored_tasks a)) a (fst (tick w now a)) evs"
  proof (cases r)
    case None
    then have "fst (tick w now a) = a1" using True c by (simp add: tick_def Let_def)
    then show ?thesis using s by simp
  next
    case (Some e)
    then have "fst (tick w now a) = grow a1 [(ERROR, SchedulerError e), (ERROR, Traceback)] []"
      using True c by (simp add: tick_def Let_def add_log_grow grow_grow)
    then show ?thesis using steps_grow [OF s] by simp
  qed
  show ?thesis by (rule exI [of _ evs], rule f)
qed

lemma tick_facts:
  fixes w :: world and now :: datetime and a :: app
  defines "a' \<equiv> fst (tick w now a)"
  shows "EvRun j \<in> set (new_events a a') \<Longrightarrow> j < length (stored_tasks a) \<and> due now (stored_tasks a ! j)"
    and "EvRunResult j ok \<in> set (new_events a a') \<Longrightarrow>
           j < length (stored_tasks a) \<and> due now (stored_tasks a ! j)"
    and "length (stored_tasks a') = length (stored_tasks a)"
    and "j < length (stored_tasks a) \<Longrightarrow> EvRunResult j True \<in> set (new_events a a') \<Longrightarrow>
           \<exists>t. stored_tasks a ! j = JObj t
               \<and> stored_tasks a' ! j = JObj (dict_set t ''last_run'' (JStr (stamp_minute now)))"
    and "j < length (stored_tasks a) \<Longrightarrow> EvRunResult j True \<notin> set (new_events a a') \<Longrightarrow>
           stored_tasks a' ! j = stored_tasks a ! j"
proof -
  obtain evs where s: "steps_to now (enumerate 0 (stored_tasks a)) a a' evs"
    unfolding a'_def using steps_tick by blast
  note d = steps_toD [OF s]
  have ne: "new_events a a' = evs" using d(1) by (simp add: new_events_def)
  show "EvRun j \<in> set (new_events a a') \<Longrightarrow> j < length (stored_tasks a) \<and> due now (stored_tasks a ! j)"
    using d(2) [of j] by (auto simp: ne in_set_enumerate_eq)
  show "EvRunResult j ok \<in> set (new_events a a') \<Longrightarrow>
           j < length (stored_tasks a) \<and> due now (stored_tasks a ! j)"
    using d(3) [of j ok] by (auto simp: ne in_set_enumerate_eq)
  show "length (stored_tasks a') = length (stored_tasks a)" by (rule d(4))
  show "j < length (stored_tasks a) \<Longrightarrow> EvRunResult j True \<in> set (new_events a a') \<Longrightarrow>
           \<exists>t. stored_tasks a ! j = JObj t
               \<and> stored_tasks a' ! j = JObj (dict_set t ''last_run'' (JStr (stamp_minute now)))"
    using d(5) [of j] by (auto simp: ne in_set_enumerate_eq)
  show "j < length (stored_tasks a) \<Longrightarrow> EvRunResult j True \<notin> set (new_events a a') \<Longrightarrow>
           stored_tasks a' ! j = stored_tasks a ! j"
    using d(6) [of j] by (simp add: ne)
qed


lemma not_due_disabled:
  assumes "\<not> truthy (dict_get t ''enabled'' (JBool True))"
  shows "\<not> due now (JObj t)"
  using assms by (simp add: due_def)


text \<open>
  Claim C9. A task whose \<^verbatim>\<open>enabled\<close> value is false (or any other falsy value) is skipped
  by the first test of the loop body, in any state and at any time: its evaluation changes
  nothing and logs nothing, no tick calls the runner on it, and a tick leaves it as it was.
\<close>

theorem disabled_task_never_runs:
  assumes "i < length (stored_tasks a)"
    and "stored_tasks a ! i = JObj t"
    and "\<not> truthy (dict_get t ''enabled'' (JBool True))"
  shows "check_one w now i (JObj t) b = (None, b)
     \<and> EvRun i \<notin> set (new_events a (fst (tick w now a)))
     \<and> stored_tasks (fst (tick w now a)) ! i = JObj t"
proof (intro conjI)
  have nd: "\<not> due now (stored_tasks a ! i)"
    using assms(2,3) by (simp add: not_due_disabled)
  show "check_one w now i (JObj t) b = (None, b)"
    using assms(3) by (simp add: check_one_def)
  show "EvRun i \<notin> set (new_events a (fst (tick w now a)))"
    using tick_facts(1) [of i a w now] nd by blast
  have "EvRunResult i True \<notin> set (new_events a (fst (tick w now a)))"
    using tick_facts(2) [of i True a w now] nd by blast
  then show "stored_tasks (fst (tick w now a)) ! i = JObj t"
    using tick_facts(5) [OF assms(1), of w now] assms(2) by simp
qed

text \<open>The sample task, disabled, at the very minute of its schedule.\<close>

theorem disabled_task_never_runs_witness:
  "hour_minute_differs ex_task_disabled ex_now = Inr False
   \<and> py_contains (today_of ex_now) (dict_get ex_task_disabled ''days'' (JList [])) = Inr True
   \<and> EvRun 0 \<notin> set (new_events (ex_app [JObj ex_task_disabled])
                       (fst (tick ex_world ex_now (ex_app [JObj ex_task_disabled]))))
   \<and> stored_tasks (fst (tick ex_world ex_now (ex_app [JObj ex_task_disabled]))) ! 0 = JObj ex_task_disabled"
proof -
  let ?a = "ex_app [JObj ex_task_disabled]"
  have h1: "0 < length (stored_tasks ?a)" by code_simp
  have h2: "stored_tasks ?a ! 0 = JObj ex_task_disabled" by code_simp
  have h3: "\<not> truthy (dict_get ex_task_disabled ''enabled'' (JBool True))" by code_simp
  have m1: "hour_minute_differs ex_task_disabled ex_now = Inr False" by code_simp
  have m2: "py_contains (today_of ex_now) (dict_get ex_task_disabled ''days'' (JList [])) = Inr True"
    by code_simp
  note t = disabled_task_never_runs [OF h1 h2 h3, of ex_world ex_now ?a]
  from m1 m2 t [THEN conjunct2, THEN conjunct1] t [THEN conjunct2, THEN conjunct2]
  show ?thesis by (intro conjI)
qed








text \<open>
  Claim C8. When the runner returns \<^verbatim>\<open>False\<close> for a due task, the scheduler adds one warning
  to what the run itself logged and nothing else: the task collection is not touched (so
  \<^verbatim>\<open>last_run\<close> keeps its value and the task stays eligible), it is not written to disk, and
  the loop goes on.
\<close>

theorem failed_run_keeps_last_run:
  fixes w :: world and now :: datetime and a :: app and t :: pydict and i :: nat
  defines "name \<equiv> dict_get t ''name'' (JStr ''Task'')"
  defines "a1 \<equiv> grow a [(INFO, TaskTrigger name (today_of now) (hhmm now))] [EvRun i]"
  defines "rr \<equiv> run_upload_for_task w t (truthy (dict_get t ''dry_run'' (JBool False))) a1"
  defines "a' \<equiv> snd (check_one w now i (JObj t) a)"
  assumes due: "due now (JObj t)"
    and fail: "fst rr = Inr False"
  shows "\<exists>ls evs. list_all is_network evs
      \<and> check_one w now i (JObj t) a
          = (None, grow a ((INFO, TaskTrigger name (today_of now) (hhmm now)) # ls @ [(WARN, TaskFailed name)])
                          (EvRun i # evs @ [EvRunResult i False]))
      \<and> a_tasks_obj a' = a_tasks_obj a
      \<and> stored_tasks a' = stored_tasks a
      \<and> (\<forall>d r. EvSave d r \<notin> set (new_events a a'))
      \<and> check_loop w now ((i, JObj t) # rest) a = check_loop w now rest a'"
proof -
  let ?trig = "(INFO, TaskTrigger name (today_of now) (hhmm now))"
  obtain ls evs where s: "snd rr = grow a1 ls evs" and n: "list_all is_network evs"
    unfolding rr_def using run_upload_frame by blast
  let ?ls = "?trig # ls @ [(WARN, TaskFailed name)]"
  let ?evs = "EvRun i # evs @ [EvRunResult i False]"
  have "run_due_task w now i t a = (None, grow (snd rr) [(WARN, TaskFailed name)] [EvRunResult i False])"
    using fail unfolding rr_def a1_def name_def by (rule run_due_task_fail)
  then have c: "check_one w now i (JObj t) a = (None, grow a ?ls ?evs)"
    using check_one_due [OF due, of w i a] s by (simp add: a1_def grow_grow)
  have a': "a' = grow a ?ls ?evs" using c by (simp add: a'_def)
  have c3: "a_tasks_obj a' = a_tasks_obj a" by (simp add: a' grow_fields)
  have c4: "stored_tasks a' = stored_tasks a" by (simp add: a' stored_tasks_grow)
  have c5: "\<forall>d r. EvSave d r \<notin> set (new_events a a')"
    using network_only(3) [OF n] by (simp add: a' new_events_grow)
  have c6: "check_loop w now ((i, JObj t) # rest) a = check_loop w now rest a'"
    using c by (simp add: a')
  have "list_all is_network evs
      \<and> check_one w now i (JObj t) a = (None, grow a ?ls ?evs)
      \<and> a_tasks_obj a' = a_tasks_obj a
      \<and> stored_tasks a' = stored_tasks a
      \<and> (\<forall>d r. EvSave d r \<notin> set (new_events a a'))
      \<and> check_loop w now ((i, JObj t) # rest) a = check_loop w now rest a'"
    using n c c3 c4 c5 c6 by (intro conjI)
  then show ?thesis by (intro exI [of _ ls] exI [of _ evs])
qed


text \<open>The sample task on a server that refuses the first upload: the run fails, the task
  collection is as before, nothing is saved, and the last log line is the warning.\<close>

theorem failed_run_keeps_last_run_witness:
  "due ex_now (JObj ex_task)
   \<and> a_tasks_obj (snd (check_one ex_world_refused ex_now 0 (JObj ex_task) (ex_app [JObj ex_task])))
     = a_tasks_obj (ex_app [JObj ex_task])
   \<and> (\<forall>d r. EvSave d r \<notin> set (new_events (ex_app [JObj ex_task])
          (snd (check_one ex_world_refused ex_now 0 (JObj ex_task) (ex_app [JObj ex_task])))))
   \<and> last (a_log (snd (check_one ex_world_refused ex_now 0 (JObj ex_task) (ex_app [JObj ex_task]))))
     = (WARN, TaskFailed (JStr ''swap''))"
proof -
  let ?a = "ex_app [JObj ex_task]"
  have d: "due ex_now (JObj ex_task)" by code_simp
  have f: "fst (run_upload_for_task ex_world_refused ex_task (truthy (dict_get ex_task ''dry_run'' (JBool False)))
             (grow ?a [(INFO, TaskTrigger (dict_get ex_task ''name'' (JStr ''Task'')) (today_of ex_now) (hhmm ex_now))]
                [EvRun 0])) = Inr False"
    by code_simp
  obtain ls evs where
    r2: "a_tasks_obj (snd (check_one ex_world_refused ex_now 0 (JObj ex_task) ?a)) = a_tasks_obj ?a"
    and r3: "\<forall>d r. EvSave d r \<notin> set (new_events ?a (snd (check_one ex_world_refused ex_now 0 (JObj ex_task) ?a)))"
    using failed_run_keeps_last_run [OF d f] by blast
  have r4: "last (a_log (snd (check_one ex_world_refused ex_now 0 (JObj ex_task) ?a)))
     = (WARN, TaskFailed (JStr ''swap''))"
    by code_simp
  from d r2 r3 r4 show ?thesis by (intro conjI)
qed






end
